theory Spec2Isabelle
  imports Main "HOL-Library.Word"
begin

unbundle bit_operations_syntax

section \<open>Data model of main.c\<close>

text \<open>
  The program runs on an ATtiny45 (avr-gcc): \<open>unsigned char\<close> and \<open>char\<close> are 8 bits,
  \<open>unsigned short\<close> and \<open>unsigned int\<close> are 16 bits, \<open>long\<close> is 32 bits. Arithmetic on
  the 8- and 16-bit variables wraps, which is what \<open>+\<close> on words does; \<open><\<close>, \<open>div\<close>
  and \<open>mod\<close> on words are the unsigned operations the C code performs on these values.
\<close>

type_synonym u8 = "8 word"
type_synonym u16 = "16 word"

subsection \<open>Pins (lines 18-22) and compile-time constants (lines 25-44)\<close>

definition LED_RED :: nat where "LED_RED = 0"
definition OUT_ENA :: nat where "OUT_ENA = 1"
definition LED_GRN :: nat where "LED_GRN = 2"
definition CHR_STA :: nat where "CHR_STA = 3"
definition USB_STA :: nat where "USB_STA = 4"

definition START_ADC_1S_WATCHDOG :: u8 where "START_ADC_1S_WATCHDOG = 4"
definition START_ADC_0_5S_WATCHDOG :: u8 where "START_ADC_0_5S_WATCHDOG = 8"

definition PWM_RAMP_SPEED :: u8 where "PWM_RAMP_SPEED = 3"
definition PWM_MAX :: u8 where "PWM_MAX = 253"
definition PWM_MIN :: u8 where "PWM_MIN = 0"

definition BATTERY_GOOD :: u16 where "BATTERY_GOOD = 3419"
definition BATTERY_LOW :: u16 where "BATTERY_LOW = 3304"
definition BATTERY_CRITICAL :: u16 where "BATTERY_CRITICAL = 3209"

text \<open>The calibration constant of line 79, a \<open>long\<close> literal.\<close>

definition K :: nat where "K = 1126400"

subsection \<open>Register bits\<close>

text \<open>
  The bit numbers come from the device header \<open>avr/io.h\<close> (ATtiny25/45/85), which is not
  part of the repository; they are the values of that header.
\<close>

definition SE :: nat where "SE = 5"
definition SM1 :: nat where "SM1 = 4"
definition ADEN :: nat where "ADEN = 7"
definition ADSC :: nat where "ADSC = 6"
definition ADIE :: nat where "ADIE = 3"
definition ADPS2 :: nat where "ADPS2 = 2"
definition ADPS1 :: nat where "ADPS1 = 1"
definition OCIE0A :: nat where "OCIE0A = 4"
definition TOIE0 :: nat where "TOIE0 = 1"
definition CS01 :: nat where "CS01 = 1"
definition WGM01 :: nat where "WGM01 = 1"
definition WGM00 :: nat where "WGM00 = 0"
definition WDIE :: nat where "WDIE = 6"
definition WDP2 :: nat where "WDP2 = 2"
definition WDP1 :: nat where "WDP1 = 1"
definition WDP0 :: nat where "WDP0 = 0"
definition MUX3 :: nat where "MUX3 = 3"
definition MUX2 :: nat where "MUX2 = 2"
definition PRTIM1 :: nat where "PRTIM1 = 3"
definition PRUSI :: nat where "PRUSI = 1"

text \<open>\<open>bv n\<close> is the C expression \<open>(1 << n)\<close>, truncated to the 8 bits of a register.\<close>

definition bv :: "nat \<Rightarrow> u8" where
  "bv n = push_bit n 1"

subsection \<open>The machine state\<close>

text \<open>
  The global variables of lines 27-49 and the I/O registers the program writes. A
  register is the value last written to it. Three fields are bookkeeping that the C code
  does not store: \<open>adc_starts\<close> counts the executions of a statement that writes
  \<open>ADSC\<close> (each starts one analog conversion), \<open>busy_us\<close> adds up the microseconds
  spent in \<open>_delay_us\<close>, and \<open>setMode_calls\<close> counts the calls of \<open>setMode\<close>.
\<close>

record mcu =
  watchdogCount :: u8
  adcVal :: u16
  sumVolt :: u16
  voltage :: u16
  numSamples :: u8
  countPWM :: u8
  indexDirPWM :: u8
  indexPWM :: u8
  mStatus :: u8
  pStatus :: u8
  grn_glw :: u8
  red_glw :: u8
  requestStatus :: u8
  DDRB :: u8
  PORTB :: u8
  MCUCR :: u8
  ADCSRA :: u8
  ADMUX :: u8
  TIMSK :: u8
  TCCR0A :: u8
  TCCR0B :: u8
  OCR0A :: u8
  WDTCR :: u8
  PRR :: u8
  adc_starts :: nat
  busy_us :: nat
  setMode_calls :: nat

section \<open>Interrupt handlers\<close>

text \<open>\<open>sleep_disable()\<close> of \<open>avr/sleep.h\<close> clears the sleep-enable bit.\<close>

definition sleep_disable :: "mcu \<Rightarrow> mcu" where
  "sleep_disable s = s\<lparr>MCUCR := MCUCR s AND NOT (bv SE)\<rparr>"

definition sleep_enable :: "mcu \<Rightarrow> mcu" where
  "sleep_enable s = s\<lparr>MCUCR := MCUCR s OR bv SE\<rparr>"

text \<open>Lines 59-66.\<close>

definition WDT_vect :: "mcu \<Rightarrow> mcu" where
  "WDT_vect s = (sleep_disable s)\<lparr>requestStatus := 1\<rparr>"

text \<open>
  Lines 73-90. The arguments are the two halves \<open>ADCL\<close>, \<open>ADCH\<close> of the conversion
  result. The quotient \<open>1126400 / adcVal\<close> is computed in \<open>long\<close> and added to the 16-bit
  \<open>sumVolt\<close>, so the sum wraps modulo \<open>2^16\<close>. A division by zero is undefined behaviour
  in C: the model returns \<open>None\<close>.
\<close>

definition raw_code :: "u8 \<Rightarrow> u8 \<Rightarrow> u16" where
  "raw_code adcl adch = ucast adcl OR push_bit 8 (ucast adch)"

definition ADC_vect :: "u8 \<Rightarrow> u8 \<Rightarrow> mcu \<Rightarrow> mcu option" where
  "ADC_vect adcl adch s0 =
    (let s = s0\<lparr>adcVal := raw_code adcl adch\<rparr> in
     if numSamples s < 10 then
       (if adcVal s = 0 then None
        else Some (s\<lparr>numSamples := numSamples s + 1,
                     sumVolt := sumVolt s + word_of_nat (K div unat (adcVal s)),
                     ADCSRA := ADCSRA s OR bv ADSC,
                     adc_starts := adc_starts s + 1\<rparr>))
     else
       Some (s\<lparr>voltage := sumVolt s div 10,
                numSamples := 0,
                sumVolt := 0,
                MCUCR := MCUCR s OR bv SM1,
                ADCSRA := ADCSRA s AND NOT (bv ADEN)\<rparr>))"

text \<open>Lines 98-102.\<close>

definition TIM0_OVF_vect :: "mcu \<Rightarrow> mcu" where
  "TIM0_OVF_vect s0 =
    (let s = sleep_disable s0 in
     s\<lparr>PORTB := PORTB s OR (push_bit LED_GRN (grn_glw s) OR push_bit LED_RED (red_glw s))\<rparr>)"

text \<open>
  Lines 110-127. \<open>indexDirPWM\<close> is a \<open>char\<close> holding 1 or -1; adding it to the
  \<open>unsigned char\<close> \<open>indexPWM\<close> and storing the result keeps the low 8 bits, which is
  word addition with \<open>- 1 = 255\<close>.
\<close>

definition TIM0_COMPA_vect :: "mcu \<Rightarrow> mcu" where
  "TIM0_COMPA_vect s0 =
    (let s1 = sleep_disable s0;
         s2 = s1\<lparr>countPWM := countPWM s1 + 1\<rparr> in
     if countPWM s2 \<ge> PWM_RAMP_SPEED then
       (let s3 = s2\<lparr>countPWM := 0\<rparr>;
            s4 = s3\<lparr>indexPWM := indexPWM s3 + indexDirPWM s3\<rparr>;
            s5 = (if indexPWM s4 \<ge> PWM_MAX then s4\<lparr>indexDirPWM := - 1\<rparr>
                  else if indexPWM s4 \<le> PWM_MIN then s4\<lparr>indexDirPWM := 1\<rparr>
                  else s4);
            s6 = s5\<lparr>OCR0A := indexPWM s5\<rparr>
        in s6\<lparr>PORTB := PORTB s6 AND
                   (NOT (push_bit LED_GRN (grn_glw s6)) AND NOT (push_bit LED_RED (red_glw s6)))\<rparr>)
     else s2)"

section \<open>The mode evaluator\<close>

text \<open>
  Lines 160-163 and their three copies: reset the cadence counter, select idle sleep,
  enable the converter and start the first conversion.
\<close>

definition start_adc_cycles :: "mcu \<Rightarrow> mcu" where
  "start_adc_cycles s =
     s\<lparr>watchdogCount := 0,
       MCUCR := MCUCR s AND NOT (bv SM1),
       ADCSRA := ADCSRA s OR (bv ADEN OR bv ADSC),
       adc_starts := adc_starts s + 1\<rparr>"

text \<open>
  Lines 137-140: when the stored status is 7 the OUT_ENA pin is made an input again and
  the code waits 5 microseconds before the pins are read.
\<close>

definition release_OUT_ENA :: "mcu \<Rightarrow> mcu" where
  "release_OUT_ENA s =
     (if mStatus s = 7
      then s\<lparr>DDRB := DDRB s AND NOT (bv OUT_ENA), busy_us := busy_us s + 5\<rparr>
      else s)"

text \<open>
  Lines 135-212. \<open>PINB\<close> is the input register: what a read of it returns is given by
  the environment as a function of the machine state at the moment of the read. All reads
  of one call happen after lines 137-140 and before any other write, so they see the same
  state. The result is the returned mode and the state the call leaves.
\<close>

definition getStatus :: "(mcu \<Rightarrow> u8) \<Rightarrow> mcu \<Rightarrow> u8 \<times> mcu" where
  "getStatus PINB s0 =
    (let s = release_OUT_ENA s0 in
     if PINB s AND bv OUT_ENA = 0 then
       (if PINB s AND bv USB_STA = 0 then (1, s)
        else if PINB s AND bv CHR_STA = 0 then (2, s)
        else (3, s))
     else
       (if PINB s AND bv USB_STA = 0 then
          (if voltage s > BATTERY_GOOD then
             (let s1 = (if watchdogCount s mod START_ADC_1S_WATCHDOG = 0
                        then start_adc_cycles s else s)
              in (4, s1\<lparr>watchdogCount := watchdogCount s1 + 1\<rparr>))
           else if voltage s > BATTERY_LOW then
             (let s1 = s\<lparr>PORTB := PORTB s XOR bv LED_RED\<rparr>;
                  s2 = s1\<lparr>watchdogCount := watchdogCount s1 + 1\<rparr>
              in (5, if watchdogCount s2 mod START_ADC_1S_WATCHDOG = 0
                     then start_adc_cycles s2 else s2))
           else if voltage s > BATTERY_CRITICAL then
             (let s1 = s\<lparr>PORTB := PORTB s XOR bv LED_RED\<rparr>;
                  s2 = s1\<lparr>watchdogCount := watchdogCount s1 + 1\<rparr>
              in (6, if watchdogCount s2 mod START_ADC_0_5S_WATCHDOG = 0
                     then start_adc_cycles s2 else s2))
           else
             (let s2 = s\<lparr>watchdogCount := watchdogCount s + 1\<rparr>;
                  s3 = (if watchdogCount s2 mod START_ADC_1S_WATCHDOG = 0
                        then start_adc_cycles s2 else s2)
              in (7, s3\<lparr>DDRB := DDRB s3 OR bv OUT_ENA\<rparr>)))
        else if PINB s AND bv CHR_STA = 0 then (8, s)
        else (9, s)))"

section \<open>The mode actuator\<close>

text \<open>
  Lines 219-398, one branch per \<open>case\<close> of the \<open>switch\<close> on \<open>mStatus\<close>; the last
  branch is \<open>case 1\<close> together with \<open>default\<close>. Successive statements on one register
  are composed in the order of the source.
\<close>

definition setMode :: "mcu \<Rightarrow> mcu" where
  "setMode s0 =
    (let s = s0\<lparr>setMode_calls := setMode_calls s0 + 1\<rparr> in
     if mStatus s = 2 then
       s\<lparr>red_glw := 1, grn_glw := 0,
         DDRB := (DDRB s OR bv LED_RED) AND (NOT (bv LED_GRN) AND NOT (bv OUT_ENA)),
         PORTB := (PORTB s AND NOT (bv LED_GRN)) OR bv LED_RED,
         MCUCR := MCUCR s AND NOT (bv SM1),
         TIMSK := TIMSK s OR (bv OCIE0A OR bv TOIE0),
         TCCR0B := TCCR0B s OR bv CS01,
         WDTCR := (WDTCR s OR bv WDP1) AND NOT (bv WDP0),
         ADCSRA := ADCSRA s AND NOT (bv ADEN)\<rparr>
     else if mStatus s = 3 then
       s\<lparr>DDRB := (DDRB s OR bv LED_RED) AND (NOT (bv LED_GRN) AND NOT (bv OUT_ENA)),
         PORTB := PORTB s AND (NOT (bv LED_GRN) AND NOT (bv LED_RED)),
         MCUCR := MCUCR s OR bv SM1,
         TIMSK := TIMSK s AND (NOT (bv OCIE0A) AND NOT (bv TOIE0)),
         TCCR0B := TCCR0B s AND NOT (bv CS01),
         WDTCR := (WDTCR s OR bv WDP1) AND NOT (bv WDP0),
         ADCSRA := ADCSRA s AND NOT (bv ADEN)\<rparr>
     else if mStatus s = 4 then
       s\<lparr>DDRB := (DDRB s OR bv LED_GRN) AND (NOT (bv LED_RED) AND NOT (bv OUT_ENA)),
         PORTB := PORTB s AND (NOT (bv LED_GRN) AND NOT (bv LED_RED)),
         MCUCR := MCUCR s OR bv SM1,
         TIMSK := TIMSK s AND (NOT (bv OCIE0A) AND NOT (bv TOIE0)),
         TCCR0B := TCCR0B s AND NOT (bv CS01),
         WDTCR := (WDTCR s OR bv WDP1) AND NOT (bv WDP0)\<rparr>
     else if mStatus s = 5 then
       s\<lparr>DDRB := (DDRB s OR (bv LED_GRN OR bv LED_RED)) AND NOT (bv OUT_ENA),
         PORTB := PORTB s AND (NOT (bv LED_GRN) AND NOT (bv LED_RED)),
         MCUCR := MCUCR s OR bv SM1,
         TIMSK := TIMSK s AND (NOT (bv OCIE0A) AND NOT (bv TOIE0)),
         TCCR0B := TCCR0B s AND NOT (bv CS01),
         WDTCR := (WDTCR s OR bv WDP1) AND NOT (bv WDP0)\<rparr>
     else if mStatus s = 6 then
       s\<lparr>DDRB := (DDRB s OR (bv LED_GRN OR bv LED_RED)) AND NOT (bv OUT_ENA),
         PORTB := PORTB s AND (NOT (bv LED_GRN) AND NOT (bv LED_RED)),
         MCUCR := MCUCR s OR bv SM1,
         TIMSK := TIMSK s AND (NOT (bv OCIE0A) AND NOT (bv TOIE0)),
         TCCR0B := TCCR0B s AND NOT (bv CS01),
         WDTCR := (WDTCR s OR bv WDP0) AND NOT (bv WDP1)\<rparr>
     else if mStatus s = 7 then
       s\<lparr>DDRB := (DDRB s AND (NOT (bv LED_GRN) AND NOT (bv LED_RED))) OR bv OUT_ENA,
         PORTB := PORTB s AND (NOT (bv LED_GRN) AND NOT (bv LED_RED)),
         MCUCR := MCUCR s OR bv SM1,
         TIMSK := TIMSK s AND (NOT (bv OCIE0A) AND NOT (bv TOIE0)),
         TCCR0B := TCCR0B s AND NOT (bv CS01),
         WDTCR := (WDTCR s OR bv WDP1) AND NOT (bv WDP0)\<rparr>
     else if mStatus s = 8 then
       s\<lparr>red_glw := 0, grn_glw := 1,
         DDRB := (DDRB s OR bv LED_GRN) AND (NOT (bv LED_RED) AND NOT (bv OUT_ENA)),
         PORTB := PORTB s AND (NOT (bv LED_GRN) AND NOT (bv LED_RED)),
         MCUCR := MCUCR s AND NOT (bv SM1),
         TIMSK := TIMSK s OR (bv OCIE0A OR bv TOIE0),
         TCCR0B := TCCR0B s OR bv CS01,
         WDTCR := (WDTCR s OR bv WDP1) AND NOT (bv WDP0),
         ADCSRA := ADCSRA s AND NOT (bv ADEN)\<rparr>
     else if mStatus s = 9 then
       s\<lparr>DDRB := (DDRB s OR bv LED_GRN) AND (NOT (bv LED_RED) AND NOT (bv OUT_ENA)),
         PORTB := PORTB s AND (NOT (bv LED_GRN) AND NOT (bv LED_RED)),
         MCUCR := MCUCR s OR bv SM1,
         TIMSK := TIMSK s AND (NOT (bv OCIE0A) AND NOT (bv TOIE0)),
         TCCR0B := TCCR0B s AND NOT (bv CS01),
         WDTCR := (WDTCR s OR bv WDP1) AND NOT (bv WDP0),
         ADCSRA := ADCSRA s AND NOT (bv ADEN)\<rparr>
     else
       s\<lparr>DDRB := DDRB s AND (NOT (bv LED_GRN) AND NOT (bv LED_RED) AND NOT (bv OUT_ENA)),
         PORTB := PORTB s AND (NOT (bv LED_GRN) AND NOT (bv LED_RED) AND NOT (bv OUT_ENA)),
         MCUCR := MCUCR s OR bv SM1,
         TIMSK := TIMSK s AND (NOT (bv OCIE0A) AND NOT (bv TOIE0)),
         TCCR0B := TCCR0B s AND NOT (bv CS01),
         WDTCR := (WDTCR s OR bv WDP1) AND NOT (bv WDP0),
         ADCSRA := ADCSRA s AND NOT (bv ADEN)\<rparr>)"

section \<open>Start-up and the main loop\<close>

text \<open>
  The state when \<open>main\<close> is entered: the globals hold their initialisers (a global
  without one is zero), the I/O registers hold the reset value 0 of the device.
\<close>

definition reset_state :: mcu where
  "reset_state =
     \<lparr>watchdogCount = 0, adcVal = 0, sumVolt = 0, voltage = 4000, numSamples = 0,
      countPWM = 0, indexDirPWM = 1, indexPWM = 70,
      mStatus = 0, pStatus = 0, grn_glw = 0, red_glw = 0, requestStatus = 1,
      DDRB = 0, PORTB = 0, MCUCR = 0, ADCSRA = 0, ADMUX = 0, TIMSK = 0,
      TCCR0A = 0, TCCR0B = 0, OCR0A = 0, WDTCR = 0, PRR = 0,
      adc_starts = 0, busy_us = 0, setMode_calls = 0\<rparr>"

text \<open>Lines 405-422, the function \<open>setup\<close> (the name is a keyword here).\<close>

definition setup_mcu :: "mcu \<Rightarrow> mcu" where
  "setup_mcu s =
     s\<lparr>TCCR0A := TCCR0A s OR (bv WGM01 OR bv WGM00),
       OCR0A := 0,
       ADMUX := ADMUX s OR (bv MUX3 OR bv MUX2),
       ADCSRA := (ADCSRA s OR (bv ADPS2 OR bv ADPS1)) OR bv ADIE,
       PRR := PRR s OR (bv PRTIM1 OR bv PRUSI),
       MCUCR := MCUCR s OR bv SM1,
       WDTCR := WDTCR s OR (bv WDIE OR bv WDP2 OR push_bit WDP1 0)\<rparr>"

definition power_on :: mcu where
  "power_on = setup_mcu reset_state"

text \<open>
  Lines 438-447, the body of the \<open>while\<close> loop before \<open>sleep_mode()\<close>: the evaluation
  runs when a watchdog interrupt has requested it, and \<open>setMode\<close> is called when the
  evaluated mode differs from \<open>pStatus\<close>.
\<close>

definition main_body :: "(mcu \<Rightarrow> u8) \<Rightarrow> mcu \<Rightarrow> mcu" where
  "main_body PINB s =
    (if requestStatus s = 1 then
       (let (m, s1) = getStatus PINB s;
            s2 = s1\<lparr>mStatus := m\<rparr>;
            s3 = (if mStatus s2 \<noteq> pStatus s2 then setMode s2 else s2)
        in s3\<lparr>pStatus := mStatus s3, requestStatus := 0\<rparr>)
     else s)"

subsection \<open>Runs of the program\<close>

text \<open>
  What happens after start-up is a sequence of events: one of the four interrupts, or one
  pass of the main loop. \<open>sleep_mode()\<close> sets the sleep-enable bit before sleeping and
  clears it after waking, so a pass of the loop is: clear it (the end of the previous
  \<open>sleep_mode()\<close>), run the body, set it. Handlers run between passes of the loop.
\<close>

datatype event =
    WDT
  | ADC u8 u8
  | TIM0_OVF
  | TIM0_COMPA
  | MAIN "mcu \<Rightarrow> u8"

fun step :: "event \<Rightarrow> mcu \<Rightarrow> mcu option" where
  "step WDT s = Some (WDT_vect s)"
| "step (ADC adcl adch) s = ADC_vect adcl adch s"
| "step TIM0_OVF s = Some (TIM0_OVF_vect s)"
| "step TIM0_COMPA s = Some (TIM0_COMPA_vect s)"
| "step (MAIN PINB) s = Some (sleep_enable (main_body PINB (sleep_disable s)))"

fun exec :: "event list \<Rightarrow> mcu \<Rightarrow> mcu option" where
  "exec [] s = Some s"
| "exec (e # es) s = (case step e s of None \<Rightarrow> None | Some s' \<Rightarrow> exec es s')"

section \<open>The inputs of an evaluation, as the specification names them\<close>

text \<open>
  The value a call of \<open>getStatus\<close> reads from \<open>PINB\<close>, and the three signals in it:
  OUT_ENA high is "output enabled", USB_STA high is "USB present", CHR_STA low is
  "charging" (lines 19-22).
\<close>

definition pins_read :: "(mcu \<Rightarrow> u8) \<Rightarrow> mcu \<Rightarrow> u8" where
  "pins_read PINB s = PINB (release_OUT_ENA s)"

definition output_enabled :: "u8 \<Rightarrow> bool" where
  "output_enabled pinb = bit pinb OUT_ENA"

definition usb_present :: "u8 \<Rightarrow> bool" where
  "usb_present pinb = bit pinb USB_STA"

definition charging :: "u8 \<Rightarrow> bool" where
  "charging pinb = (\<not> bit pinb CHR_STA)"

text \<open>
  The decision tree as section 4.2 of the specification words it, to be compared with
  \<open>getStatus\<close>.
\<close>

definition spec_mode :: "bool \<Rightarrow> bool \<Rightarrow> bool \<Rightarrow> u16 \<Rightarrow> u8" where
  "spec_mode out usb chr v =
     (if \<not> out then (if \<not> usb then 1 else if chr then 2 else 3)
      else if \<not> usb then
        (if v > 3419 then 4 else if v > 3304 then 5 else if v > 3209 then 6 else 7)
      else if chr then 8 else 9)"

section \<open>Invariant of the PWM ramp\<close>

text \<open>
  The index and direction of lines 37-39 as the handler of lines 110-127 keeps them: at
  a bound the direction points inwards, strictly between the bounds it is 1 or -1.
\<close>

definition pwm_inv :: "mcu \<Rightarrow> bool" where
  "pwm_inv s =
     ((indexPWM s = PWM_MAX \<and> indexDirPWM s = - 1)
      \<or> (indexPWM s = PWM_MIN \<and> indexDirPWM s = 1)
      \<or> (PWM_MIN < indexPWM s \<and> indexPWM s < PWM_MAX
          \<and> (indexDirPWM s = 1 \<or> indexDirPWM s = - 1)))"

section \<open>Acquisition cycles\<close>

text \<open>The millivolt value of one sample: the quotient of line 79.\<close>

definition mV :: "u16 \<Rightarrow> nat" where
  "mV r = K div unat r"

text \<open>The raw codes of the conversion-complete interrupts of a run, in order.\<close>

fun adc_samples :: "event list \<Rightarrow> u16 list" where
  "adc_samples [] = []"
| "adc_samples (ADC adcl adch # es) = raw_code adcl adch # adc_samples es"
| "adc_samples (e # es) = adc_samples es"

text \<open>A run of conversion-complete interrupts only, one per result \<open>(ADCL, ADCH)\<close>.\<close>

definition conversions :: "(u8 \<times> u8) list \<Rightarrow> event list" where
  "conversions xs = map (\<lambda>(l, h). ADC l h) xs"

text \<open>
  A run inside the first acquisition cycle: ten conversions with raw code 360 (3128 mV
  each), and the state it ends in.
\<close>

definition early_run :: "event list" where
  "early_run =
     [ADC 104 1, ADC 104 1, ADC 104 1, ADC 104 1, ADC 104 1, ADC 104 1, ADC 104 1,
      ADC 104 1, ADC 104 1, ADC 104 1]"

definition early_state :: mcu where
  "early_state =
     \<lparr>watchdogCount = 0, adcVal = 360, sumVolt = 31280, voltage = 4000, numSamples = 10,
      countPWM = 0, indexDirPWM = 1, indexPWM = 70,
      mStatus = 0, pStatus = 0, grn_glw = 0, red_glw = 0, requestStatus = 1,
      DDRB = 0, PORTB = 0, MCUCR = 16, ADCSRA = 78, ADMUX = 12, TIMSK = 0,
      TCCR0A = 3, TCCR0B = 0, OCR0A = 0, WDTCR = 68, PRR = 10,
      adc_starts = 10, busy_us = 0, setMode_calls = 0\<rparr>"

text \<open>Between cycles, when no sample is counted, the accumulator is zero.\<close>

definition adc_inv :: "mcu \<Rightarrow> bool" where
  "adc_inv s = (numSamples s \<noteq> 0 \<or> sumVolt s = 0)"

section \<open>Runs between two passes of the main loop\<close>

text \<open>A run that consists of interrupt handlers only.\<close>

fun interrupts_only :: "event list \<Rightarrow> bool" where
  "interrupts_only [] = True"
| "interrupts_only (MAIN PINB # es) = False"
| "interrupts_only (e # es) = interrupts_only es"

section \<open>The output-enable line\<close>

text \<open>
  A pin is driven low when it is configured as an output (its \<open>DDRB\<close> bit is set) and
  its \<open>PORTB\<close> bit is clear.
\<close>

definition drives_low :: "mcu \<Rightarrow> nat \<Rightarrow> bool" where
  "drives_low s pin = (bit (DDRB s) pin \<and> \<not> bit (PORTB s) pin)"

text \<open>
  No statement of the program sets the \<open>PORTB\<close> bit of OUT_ENA, and the two glow
  flags, which the timer handlers shift into \<open>PORTB\<close>, are 0 or 1.
\<close>

definition out_inv :: "mcu \<Rightarrow> bool" where
  "out_inv s = (\<not> bit (PORTB s) OUT_ENA \<and> grn_glw s \<le> 1 \<and> red_glw s \<le> 1)"

text \<open>
  Between two events the controller drives the OUT_ENA pin exactly when the stored status
  is 7: lines 198 and 345 set the \<open>DDRB\<close> bit, line 138 and every other case of
  \<open>setMode\<close> clear it.
\<close>

definition line_inv :: "mcu \<Rightarrow> bool" where
  "line_inv s = (out_inv s \<and> bit (DDRB s) OUT_ENA = (mStatus s = 7))"

text \<open>
  The input register of the port, as the device defines it (the data sheet of the
  ATtiny45, not the repository): a pin configured as output reads back the level the
  controller drives, the \<open>PORTB\<close> bit; a pin configured as input reads the level the
  external circuit puts on it. \<open>line t\<close> is that external level of the six pins when
  the busy-wait clock \<open>busy_us\<close> reads \<open>t\<close>.
\<close>

definition PINB_of :: "(nat \<Rightarrow> u8) \<Rightarrow> mcu \<Rightarrow> u8" where
  "PINB_of line s = (PORTB s AND DDRB s) OR (line (busy_us s) AND NOT (DDRB s))"

text \<open>
  An external circuit with the power switch on and no USB supply: OUT_ENA is held high,
  the other pins low, at all times.
\<close>

definition switch_on :: "nat \<Rightarrow> u8" where
  "switch_on t = bv OUT_ENA"

text \<open>
  A run to a critical reading with the switch on: the first pass of the main loop starts
  an acquisition, eleven conversions with raw code 360 (3128 mV) follow, then a watchdog
  interrupt, a second pass, which evaluates mode 7, and a watchdog interrupt; and the
  state the run ends in.
\<close>

definition critical_run :: "event list" where
  "critical_run =
     [MAIN (PINB_of switch_on),
      ADC 104 1, ADC 104 1, ADC 104 1, ADC 104 1, ADC 104 1, ADC 104 1, ADC 104 1,
      ADC 104 1, ADC 104 1, ADC 104 1, ADC 104 1,
      WDT, MAIN (PINB_of switch_on), WDT]"

definition critical_state :: mcu where
  "critical_state =
     \<lparr>watchdogCount = 2, adcVal = 360, sumVolt = 0, voltage = 3128, numSamples = 0,
      countPWM = 0, indexDirPWM = 1, indexPWM = 70,
      mStatus = 7, pStatus = 7, grn_glw = 0, red_glw = 0, requestStatus = 1,
      DDRB = 2, PORTB = 0, MCUCR = 16, ADCSRA = 78, ADMUX = 12, TIMSK = 0,
      TCCR0A = 3, TCCR0B = 0, OCR0A = 0, WDTCR = 70, PRR = 10,
      adc_starts = 11, busy_us = 0, setMode_calls = 2\<rparr>"

section \<open>The sampling cadence\<close>

text \<open>
  What one call of \<open>getStatus\<close> does about an acquisition, read off the state \<open>s\<close>
  before and the state \<open>s'\<close> after the call. It has started one when it has executed
  lines 161-163 (or their copies in the other modes): the counter is reset (and, in mode
  4, incremented afterwards), idle sleep is selected, the converter is enabled and the
  first conversion started. It has skipped it when it has only incremented the counter
  and left \<open>MCUCR\<close> and \<open>ADCSRA\<close> as they were.
\<close>

definition started :: "u8 \<Rightarrow> mcu \<Rightarrow> mcu \<Rightarrow> bool" where
  "started m s s' =
     (adc_starts s' = adc_starts s + 1
      \<and> ADCSRA s' = (ADCSRA s OR (bv ADEN OR bv ADSC))
      \<and> MCUCR s' = (MCUCR s AND NOT (bv SM1))
      \<and> watchdogCount s' = (if m = 4 then 1 else 0))"

definition skipped :: "mcu \<Rightarrow> mcu \<Rightarrow> bool" where
  "skipped s s' =
     (adc_starts s' = adc_starts s
      \<and> ADCSRA s' = ADCSRA s
      \<and> MCUCR s' = MCUCR s
      \<and> watchdogCount s' = watchdogCount s + 1)"

text \<open>
  What a run evaluates: for every pass of the main loop that calls \<open>getStatus\<close>, the
  mode returned and what the call did about an acquisition.
\<close>

record cycle =
  mode_returned :: u8
  acq_started :: bool
  acq_skipped :: bool

definition observe :: "mcu \<Rightarrow> u8 \<times> mcu \<Rightarrow> cycle" where
  "observe s r =
     \<lparr>mode_returned = fst r,
      acq_started = started (fst r) s (snd r),
      acq_skipped = skipped s (snd r)\<rparr>"

fun evaluation :: "event \<Rightarrow> mcu \<Rightarrow> cycle list" where
  "evaluation (MAIN PINB) s =
     (if requestStatus s = 1
      then [observe (sleep_disable s) (getStatus PINB (sleep_disable s))]
      else [])"
| "evaluation e s = []"

fun evaluations :: "event list \<Rightarrow> mcu \<Rightarrow> cycle list" where
  "evaluations [] s = []"
| "evaluations (e # es) s =
     (case step e s of None \<Rightarrow> [] | Some s' \<Rightarrow> evaluation e s @ evaluations es s')"

text \<open>
  The cadence constant a mode compares the counter with (lines 160, 172, 183, 193), the
  residue of the counter at which a call in that mode starts an acquisition (mode 4
  tests the counter before incrementing it, modes 5, 6, 7 after), and the residue of a
  counter value.
\<close>

definition period :: "u8 \<Rightarrow> nat" where
  "period m = (if m = 6 then 8 else 4)"

definition target :: "u8 \<Rightarrow> nat" where
  "target m = (if m = 4 then 0 else period m - 1)"

definition phase :: "u8 \<Rightarrow> u8 \<Rightarrow> nat" where
  "phase m c = unat c mod period m"

text \<open>
  The requests of \<open>k\<close> successive evaluations in one mode: the residue advances by
  one modulo \<open>n\<close>, and a request falls on residue \<open>t\<close>.
\<close>

fun ticks :: "nat \<Rightarrow> nat \<Rightarrow> nat \<Rightarrow> nat \<Rightarrow> bool list" where
  "ticks n t r 0 = []"
| "ticks n t r (Suc k) = (r = t) # ticks n t ((r + 1) mod n) k"

text \<open>
  A run from power-on with the switch on that changes from mode 4 to mode 5: the first
  pass evaluates mode 4, the acquisition it starts publishes 3403 mV (eleven conversions
  with raw code 331), and the next three passes evaluate mode 5.
\<close>

definition mixed_run :: "event list" where
  "mixed_run =
     [MAIN (PINB_of switch_on),
      ADC 75 1, ADC 75 1, ADC 75 1, ADC 75 1, ADC 75 1, ADC 75 1, ADC 75 1,
      ADC 75 1, ADC 75 1, ADC 75 1, ADC 75 1,
      WDT, MAIN (PINB_of switch_on), WDT, MAIN (PINB_of switch_on),
      WDT, MAIN (PINB_of switch_on)]"

section \<open>Properties of the mode evaluator\<close>

lemmas pin_defs = LED_RED_def OUT_ENA_def LED_GRN_def CHR_STA_def USB_STA_def

lemmas bit_defs = SE_def SM1_def ADEN_def ADSC_def ADIE_def ADPS2_def ADPS1_def
  OCIE0A_def TOIE0_def CS01_def WGM01_def WGM00_def WDIE_def WDP2_def WDP1_def WDP0_def
  MUX3_def MUX2_def PRTIM1_def PRUSI_def

lemmas const_defs = START_ADC_1S_WATCHDOG_def START_ADC_0_5S_WATCHDOG_def
  PWM_RAMP_SPEED_def PWM_MAX_def PWM_MIN_def BATTERY_GOOD_def BATTERY_LOW_def
  BATTERY_CRITICAL_def K_def

lemma test_bit: "(w AND bv n = 0) = (\<not> bit w n)"
  by (simp add: bv_def bit_iff_and_push_bit_not_eq_0)

lemma voltage_release [simp]: "voltage (release_OUT_ENA s) = voltage s"
  by (simp add: release_OUT_ENA_def)

lemma getStatus_mode:
  "fst (getStatus PINB s) =
     spec_mode (output_enabled (pins_read PINB s)) (usb_present (pins_read PINB s))
       (charging (pins_read PINB s)) (voltage s)"
  by (simp add: getStatus_def Let_def test_bit spec_mode_def output_enabled_def
      usb_present_def charging_def pins_read_def const_defs)

lemmas start_defs = power_on_def setup_mcu_def reset_state_def

lemmas read_defs = pins_read_def output_enabled_def usb_present_def charging_def
  release_OUT_ENA_def pin_defs

text \<open>
  Claim C1. In every evaluation that reads the output-enable pin high and the USB pin low,
  the returned mode is fixed by the stored voltage reading through strict comparisons:
  above 3419 it is 4, above 3304 and at most 3419 it is 5, above 3209 and at most 3304 it
  is 6, at most 3209 it is 7. A reading equal to a threshold gives the lower mode.
\<close>

theorem C1_voltage_thresholds:
  assumes "output_enabled (pins_read PINB s)"
    and "\<not> usb_present (pins_read PINB s)"
  shows "fst (getStatus PINB s) =
          (if voltage s > 3419 then 4
           else if voltage s > 3304 then 5
           else if voltage s > 3209 then 6
           else 7)"
  using assms by (simp add: getStatus_mode spec_mode_def)

theorem C1_voltage_thresholds_witness:
  "output_enabled (pins_read (\<lambda>_. 2) power_on)
   \<and> \<not> usb_present (pins_read (\<lambda>_. 2) power_on)
   \<and> fst (getStatus (\<lambda>_. 2) (power_on\<lparr>voltage := 3420\<rparr>)) = 4
   \<and> fst (getStatus (\<lambda>_. 2) (power_on\<lparr>voltage := 3419\<rparr>)) = 5
   \<and> fst (getStatus (\<lambda>_. 2) (power_on\<lparr>voltage := 3304\<rparr>)) = 6
   \<and> fst (getStatus (\<lambda>_. 2) (power_on\<lparr>voltage := 3209\<rparr>)) = 7"
  using C1_voltage_thresholds [of "\<lambda>_. 2" "power_on\<lparr>voltage := 3420\<rparr>"]
    C1_voltage_thresholds [of "\<lambda>_. 2" "power_on\<lparr>voltage := 3419\<rparr>"]
    C1_voltage_thresholds [of "\<lambda>_. 2" "power_on\<lparr>voltage := 3304\<rparr>"]
    C1_voltage_thresholds [of "\<lambda>_. 2" "power_on\<lparr>voltage := 3209\<rparr>"]
  by (simp add: read_defs start_defs)

text \<open>
  Claim C2. Over the three boolean inputs the branches are: output low and USB absent
  gives mode 1; output low, USB present, charging gives 2; output low, USB present, not
  charging gives 3; output high and USB present gives 8 when charging and 9 when not.
  Each mode is returned under exactly its own condition (the remaining condition, output
  high and USB absent, returns one of 4 to 7), so the branches cover every combination
  and no two overlap.
\<close>

theorem C2_boolean_branches:
  "(fst (getStatus PINB s) = 1 \<longleftrightarrow>
      (\<not> output_enabled (pins_read PINB s) \<and> \<not> usb_present (pins_read PINB s)))
   \<and> (fst (getStatus PINB s) = 2 \<longleftrightarrow>
      (\<not> output_enabled (pins_read PINB s) \<and> usb_present (pins_read PINB s)
        \<and> charging (pins_read PINB s)))
   \<and> (fst (getStatus PINB s) = 3 \<longleftrightarrow>
      (\<not> output_enabled (pins_read PINB s) \<and> usb_present (pins_read PINB s)
        \<and> \<not> charging (pins_read PINB s)))
   \<and> (fst (getStatus PINB s) \<in> {4, 5, 6, 7} \<longleftrightarrow>
      (output_enabled (pins_read PINB s) \<and> \<not> usb_present (pins_read PINB s)))
   \<and> (fst (getStatus PINB s) = 8 \<longleftrightarrow>
      (output_enabled (pins_read PINB s) \<and> usb_present (pins_read PINB s)
        \<and> charging (pins_read PINB s)))
   \<and> (fst (getStatus PINB s) = 9 \<longleftrightarrow>
      (output_enabled (pins_read PINB s) \<and> usb_present (pins_read PINB s)
        \<and> \<not> charging (pins_read PINB s)))"
  by (simp add: getStatus_mode spec_mode_def)

theorem C2_boolean_branches_witness:
  "fst (getStatus (\<lambda>_. 8) power_on) = 1
   \<and> fst (getStatus (\<lambda>_. 16) power_on) = 2
   \<and> fst (getStatus (\<lambda>_. 24) power_on) = 3
   \<and> fst (getStatus (\<lambda>_. 18) power_on) = 8
   \<and> fst (getStatus (\<lambda>_. 26) power_on) = 9"
  using C2_boolean_branches [of "\<lambda>_. 8" power_on]
    C2_boolean_branches [of "\<lambda>_. 16" power_on]
    C2_boolean_branches [of "\<lambda>_. 24" power_on]
    C2_boolean_branches [of "\<lambda>_. 18" power_on]
    C2_boolean_branches [of "\<lambda>_. 26" power_on]
  by (simp add: read_defs start_defs)

text \<open>
  Claim C9. The returned mode is a function of the four inputs (output enabled, USB
  present, charging, voltage reading) alone: two evaluations that agree on them return
  the same mode, whatever the rest of the two states is, the stored previous mode and the
  cadence counter included.
\<close>

theorem C9_mode_memoryless:
  assumes "output_enabled (pins_read PINB s) = output_enabled (pins_read PINB' s')"
    and "usb_present (pins_read PINB s) = usb_present (pins_read PINB' s')"
    and "charging (pins_read PINB s) = charging (pins_read PINB' s')"
    and "voltage s = voltage s'"
  shows "fst (getStatus PINB s) = fst (getStatus PINB' s')"
  using assms by (simp add: getStatus_mode)

theorem C9_mode_memoryless_witness:
  "fst (getStatus (\<lambda>_. 2) (power_on\<lparr>voltage := 3300\<rparr>)) =
   fst (getStatus (\<lambda>_. 98)
     (power_on\<lparr>voltage := 3300, mStatus := 7, pStatus := 7, watchdogCount := 3\<rparr>))"
  using C9_mode_memoryless [of "\<lambda>_. 2" "power_on\<lparr>voltage := 3300\<rparr>" "\<lambda>_. 98"
      "power_on\<lparr>voltage := 3300, mStatus := 7, pStatus := 7, watchdogCount := 3\<rparr>"]
  by (simp add: read_defs start_defs)

section \<open>Word arithmetic on 8 bits\<close>

lemma u8_inc: "unat (i :: u8) < 255 \<Longrightarrow> unat (i + 1) = unat i + 1"
  by (simp add: unat_word_ariths)

lemma u8_dec: "0 < unat (i :: u8) \<Longrightarrow> unat (i - 1) = unat i - 1"
  by (simp add: unat_minus_one unat_gt_0)

section \<open>Invariants of runs\<close>

lemma exec_invariant:
  assumes "\<And>e s s'. I s \<Longrightarrow> step e s = Some s' \<Longrightarrow> I s'"
    and "I s0" and "exec evs s0 = Some s"
  shows "I s"
  using assms(2,3)
proof (induction evs arbitrary: s0)
  case Nil
  then show ?case by simp
next
  case (Cons e es)
  then obtain s1 where s1: "step e s0 = Some s1" and rest: "exec es s1 = Some s"
    by (auto split: option.splits)
  from assms(1) [OF Cons.prems(1) s1] rest show ?case
    by (rule Cons.IH)
qed

section \<open>The PWM ramp\<close>

lemma pwm_frame_getStatus:
  "indexPWM (snd (getStatus P s)) = indexPWM s"
  "indexDirPWM (snd (getStatus P s)) = indexDirPWM s"
  by (simp_all add: getStatus_def Let_def start_adc_cycles_def release_OUT_ENA_def)

lemma pwm_frame_setMode:
  "indexPWM (setMode s) = indexPWM s"
  "indexDirPWM (setMode s) = indexDirPWM s"
  by (simp_all add: setMode_def Let_def)

lemma pwm_frame_main_body:
  "indexPWM (main_body P s) = indexPWM s"
  "indexDirPWM (main_body P s) = indexDirPWM s"
  by (simp_all add: main_body_def Let_def split_beta pwm_frame_getStatus pwm_frame_setMode)

lemma pwm_frame_ADC:
  "ADC_vect l h s = Some s' \<Longrightarrow> indexPWM s' = indexPWM s \<and> indexDirPWM s' = indexDirPWM s"
  by (auto simp add: ADC_vect_def Let_def split: if_splits)

lemma pwm_up:
  fixes i :: u8
  assumes "i < 253"
  shows "i + 1 \<le> 253" and "0 < i + 1" and "i + 1 \<noteq> i"
  using assms by (simp_all add: word_less_nat_alt word_le_nat_alt word_unat_eq_iff u8_inc)

lemma pwm_down:
  fixes i :: u8
  assumes "0 < i" and "i \<le> 253"
  shows "i - 1 < 253" and "i - 1 \<noteq> i"
  using assms by (simp_all add: word_less_nat_alt word_le_nat_alt word_unat_eq_iff u8_dec)

lemma pwm_advance:
  fixes i d :: u8
  assumes "(i = 253 \<and> d = - 1) \<or> (i = 0 \<and> d = 1) \<or> (0 < i \<and> i < 253 \<and> (d = 1 \<or> d = - 1))"
  shows "(i + d = 253 \<and> d = 1) \<or> (i + d = 0 \<and> d = - 1) \<or> (0 < i + d \<and> i + d < 253)"
    and "i + d \<noteq> i"
proof -
  consider (up) "d = 1" "i < 253" | (down) "d = - 1" "0 < i" "i \<le> 253"
    using assms by (auto simp add: word_le_less_eq)
  then have "((i + d = 253 \<and> d = 1) \<or> (i + d = 0 \<and> d = - 1) \<or> (0 < i + d \<and> i + d < 253))
      \<and> i + d \<noteq> i"
  proof cases
    case up
    from pwm_up [OF up(2)] up(1) show ?thesis
      by (auto simp add: word_le_less_eq)
  next
    case down
    from pwm_down [OF down(2,3)] down(1) show ?thesis
      by (auto simp add: word_gt_0)
  qed
  then show "(i + d = 253 \<and> d = 1) \<or> (i + d = 0 \<and> d = - 1) \<or> (0 < i + d \<and> i + d < 253)"
    and "i + d \<noteq> i" by simp_all
qed

lemma pwm_tick_moved:
  "indexPWM (TIM0_COMPA_vect s) =
     (if countPWM s + 1 \<ge> PWM_RAMP_SPEED then indexPWM s + indexDirPWM s else indexPWM s)"
  by (simp add: TIM0_COMPA_vect_def Let_def sleep_disable_def)

lemma pwm_tick_dir:
  "indexDirPWM (TIM0_COMPA_vect s) =
     (if countPWM s + 1 \<ge> PWM_RAMP_SPEED then
        (if indexPWM s + indexDirPWM s \<ge> PWM_MAX then - 1
         else if indexPWM s + indexDirPWM s \<le> PWM_MIN then 1
         else indexDirPWM s)
      else indexDirPWM s)"
  by (simp add: TIM0_COMPA_vect_def Let_def sleep_disable_def)

lemma pwm_inv_tick:
  assumes "pwm_inv s"
  shows "pwm_inv (TIM0_COMPA_vect s)"
proof -
  let ?i = "indexPWM s" and ?d = "indexDirPWM s"
  from assms have a: "(?i = 253 \<and> ?d = - 1) \<or> (?i = 0 \<and> ?d = 1)
      \<or> (0 < ?i \<and> ?i < 253 \<and> (?d = 1 \<or> ?d = - 1))"
    by (simp add: pwm_inv_def const_defs)
  from pwm_advance(1) [OF a] assms show ?thesis
    unfolding pwm_inv_def pwm_tick_moved pwm_tick_dir const_defs
    by (auto simp add: word_le_less_eq)
qed

lemma pwm_inv_step:
  assumes "pwm_inv s" and "step e s = Some s'"
  shows "pwm_inv s'"
proof (cases e)
  case WDT
  with assms show ?thesis by (auto simp add: pwm_inv_def WDT_vect_def sleep_disable_def)
next
  case (ADC l h)
  with assms pwm_frame_ADC [of l h s s'] show ?thesis by (simp add: pwm_inv_def)
next
  case TIM0_OVF
  with assms show ?thesis
    by (auto simp add: pwm_inv_def TIM0_OVF_vect_def sleep_disable_def Let_def)
next
  case TIM0_COMPA
  with assms pwm_inv_tick [of s] show ?thesis by auto
next
  case (MAIN P)
  with assms have "s' = sleep_enable (main_body P (sleep_disable s))" by simp
  then have "indexPWM s' = indexPWM s" "indexDirPWM s' = indexDirPWM s"
    by (simp_all add: sleep_enable_def pwm_frame_main_body sleep_disable_def)
  with assms show ?thesis by (simp add: pwm_inv_def)
qed

lemma pwm_inv_power_on: "pwm_inv power_on"
  by (simp add: pwm_inv_def power_on_def setup_mcu_def reset_state_def const_defs)

lemma pwm_inv_reachable: "exec evs power_on = Some s \<Longrightarrow> pwm_inv s"
  using pwm_inv_step pwm_inv_power_on by (rule exec_invariant)

lemma pwm_flip:
  fixes j d :: u8
  assumes "(j = 253 \<and> d = 1) \<or> (j = 0 \<and> d = - 1) \<or> (0 < j \<and> j < 253)"
  shows "((if 253 \<le> j then - 1 else if j \<le> 0 then 1 else d) \<noteq> d) = (j = 253 \<or> j = 0)"
    and "(if 253 \<le> j then - 1 else if j \<le> 0 then 1 else d) =
         (if j = 253 then - 1 else if j = 0 then 1 else d)"
proof -
  consider (top) "j = 253" "d = 1" | (bottom) "j = 0" "d = - 1" | (mid) "0 < j" "j < 253"
    using assms by blast
  then have "((if 253 \<le> j then - 1 else if j \<le> 0 then 1 else d) \<noteq> d) = (j = 253 \<or> j = 0)
    \<and> (if 253 \<le> j then - 1 else if j \<le> 0 then 1 else d) =
         (if j = 253 then - 1 else if j = 0 then 1 else d)"
  proof cases
    case top
    then show ?thesis by simp
  next
    case bottom
    then show ?thesis by simp
  next
    case mid
    then have "\<not> 253 \<le> j" "\<not> j \<le> 0" "j \<noteq> 253" "j \<noteq> 0"
      by (simp_all add: not_le)
    then show ?thesis by simp
  qed
  then show "((if 253 \<le> j then - 1 else if j \<le> 0 then 1 else d) \<noteq> d) = (j = 253 \<or> j = 0)"
    and "(if 253 \<le> j then - 1 else if j \<le> 0 then 1 else d) =
         (if j = 253 then - 1 else if j = 0 then 1 else d)"
    by (rule conjunct1, rule conjunct2)
qed

text \<open>
  Claim C6. In every state the program reaches after start-up the duty-cycle index lies
  between \<open>PWM_MIN\<close> = 0 and \<open>PWM_MAX\<close> = 253. A timer tick changes the direction
  exactly when it moves the index onto one of the two bounds: onto the upper bound the
  direction becomes -1 (decreasing), onto the lower bound it becomes 1 (increasing), and
  on every other tick the direction stays as it was.
\<close>

theorem C6_pwm_bounds_and_flips:
  assumes "exec evs power_on = Some s"
  shows "PWM_MIN \<le> indexPWM s \<and> indexPWM s \<le> PWM_MAX
    \<and> (indexDirPWM (TIM0_COMPA_vect s) \<noteq> indexDirPWM s \<longleftrightarrow>
         (indexPWM (TIM0_COMPA_vect s) \<noteq> indexPWM s
          \<and> (indexPWM (TIM0_COMPA_vect s) = PWM_MAX \<or> indexPWM (TIM0_COMPA_vect s) = PWM_MIN)))
    \<and> indexDirPWM (TIM0_COMPA_vect s) =
         (if indexPWM (TIM0_COMPA_vect s) \<noteq> indexPWM s \<and> indexPWM (TIM0_COMPA_vect s) = PWM_MAX
          then - 1
          else if indexPWM (TIM0_COMPA_vect s) \<noteq> indexPWM s
                  \<and> indexPWM (TIM0_COMPA_vect s) = PWM_MIN
          then 1
          else indexDirPWM s)"
proof -
  let ?i = "indexPWM s" and ?d = "indexDirPWM s"
  from assms have inv: "pwm_inv s" by (rule pwm_inv_reachable)
  then have a: "(?i = 253 \<and> ?d = - 1) \<or> (?i = 0 \<and> ?d = 1)
      \<or> (0 < ?i \<and> ?i < 253 \<and> (?d = 1 \<or> ?d = - 1))"
    by (simp add: pwm_inv_def const_defs)
  have bounds: "PWM_MIN \<le> ?i \<and> ?i \<le> PWM_MAX"
    using a by (auto simp add: const_defs word_le_less_eq)
  show ?thesis
  proof (cases "PWM_RAMP_SPEED \<le> countPWM s + 1")
    case False
    then have "indexPWM (TIM0_COMPA_vect s) = ?i" "indexDirPWM (TIM0_COMPA_vect s) = ?d"
      by (simp_all add: pwm_tick_moved pwm_tick_dir)
    with bounds show ?thesis by simp
  next
    case True
    then have i': "indexPWM (TIM0_COMPA_vect s) = ?i + ?d"
      and d': "indexDirPWM (TIM0_COMPA_vect s) =
          (if 253 \<le> ?i + ?d then - 1 else if ?i + ?d \<le> 0 then 1 else ?d)"
      by (simp_all add: pwm_tick_moved pwm_tick_dir const_defs)
    note adv = pwm_advance [OF a]
    from pwm_flip [OF adv(1)] adv(2) bounds show ?thesis
      unfolding i' d' by (simp add: const_defs)
  qed
qed

theorem C6_pwm_bounds_and_flips_witness:
  "exec [TIM0_COMPA, TIM0_COMPA, TIM0_COMPA] power_on =
     Some (TIM0_COMPA_vect (TIM0_COMPA_vect (TIM0_COMPA_vect power_on)))
   \<and> indexPWM (TIM0_COMPA_vect (TIM0_COMPA_vect (TIM0_COMPA_vect power_on))) \<le> PWM_MAX"
  using C6_pwm_bounds_and_flips [of "[TIM0_COMPA, TIM0_COMPA, TIM0_COMPA]"
      "TIM0_COMPA_vect (TIM0_COMPA_vect (TIM0_COMPA_vect power_on))"]
  by simp

section \<open>The voltage sampler\<close>

lemma adc_frame_getStatus:
  "numSamples (snd (getStatus P s)) = numSamples s"
  "sumVolt (snd (getStatus P s)) = sumVolt s"
  "voltage (snd (getStatus P s)) = voltage s"
  by (simp_all add: getStatus_def Let_def start_adc_cycles_def release_OUT_ENA_def)

lemma adc_frame_setMode:
  "numSamples (setMode s) = numSamples s"
  "sumVolt (setMode s) = sumVolt s"
  "voltage (setMode s) = voltage s"
  by (simp_all add: setMode_def Let_def)

lemma adc_frame_main_body:
  "numSamples (main_body P s) = numSamples s"
  "sumVolt (main_body P s) = sumVolt s"
  "voltage (main_body P s) = voltage s"
  by (simp_all add: main_body_def Let_def split_beta adc_frame_getStatus adc_frame_setMode)

lemma adc_frame_step:
  assumes "step e s = Some s'" and "adc_samples [e] = []"
  shows "numSamples s' = numSamples s \<and> sumVolt s' = sumVolt s \<and> voltage s' = voltage s"
proof (cases e)
  case WDT
  with assms show ?thesis by (auto simp add: WDT_vect_def sleep_disable_def)
next
  case (ADC l h)
  with assms show ?thesis by simp
next
  case TIM0_OVF
  with assms show ?thesis by (auto simp add: TIM0_OVF_vect_def sleep_disable_def Let_def)
next
  case TIM0_COMPA
  with assms show ?thesis by (auto simp add: TIM0_COMPA_vect_def sleep_disable_def Let_def)
next
  case (MAIN P)
  with assms have "s' = sleep_enable (main_body P (sleep_disable s))" by simp
  then show ?thesis
    by (simp add: sleep_enable_def adc_frame_main_body sleep_disable_def)
qed

lemma u8_lt_10: "((n :: u8) < 10) = (unat n < 10)"
  by (simp add: word_less_nat_alt)

lemma ADC_vect_sample:
  assumes "unat (numSamples s) < 10" and "raw_code l h \<noteq> 0"
  shows "ADC_vect l h s =
     Some (s\<lparr>adcVal := raw_code l h, numSamples := numSamples s + 1,
             sumVolt := sumVolt s + word_of_nat (mV (raw_code l h)),
             ADCSRA := ADCSRA s OR bv ADSC, adc_starts := adc_starts s + 1\<rparr>)"
  using assms by (simp add: ADC_vect_def Let_def u8_lt_10 mV_def)

lemma ADC_vect_publish:
  assumes "\<not> unat (numSamples s) < 10"
  shows "ADC_vect l h s =
     Some (s\<lparr>adcVal := raw_code l h, voltage := sumVolt s div 10, numSamples := 0,
             sumVolt := 0, MCUCR := MCUCR s OR bv SM1,
             ADCSRA := ADCSRA s AND NOT (bv ADEN)\<rparr>)"
  using assms by (simp add: ADC_vect_def Let_def u8_lt_10)

lemma ADC_vect_zero:
  assumes "unat (numSamples s) < 10" and "raw_code l h = 0"
  shows "ADC_vect l h s = None"
  using assms by (simp add: ADC_vect_def Let_def u8_lt_10)

text \<open>While fewer than ten samples have been taken, a run only accumulates.\<close>

lemma accumulate:
  assumes "exec evs s = Some s'"
    and "unat (numSamples s) + length (adc_samples evs) \<le> 10"
  shows "unat (numSamples s') = unat (numSamples s) + length (adc_samples evs)
    \<and> sumVolt s' = sumVolt s + word_of_nat (sum_list (map mV (adc_samples evs)))
    \<and> voltage s' = voltage s"
  using assms
proof (induction evs arbitrary: s)
  case Nil
  then show ?case by simp
next
  case (Cons e es)
  from Cons.prems(1) obtain s1 where s1: "step e s = Some s1" and rest: "exec es s1 = Some s'"
    by (auto split: option.splits)
  show ?case
  proof (cases "adc_samples [e] = []")
    case True
    then have same: "adc_samples (e # es) = adc_samples es"
      by (cases e) simp_all
    from adc_frame_step [OF s1 True] Cons.IH [OF rest] Cons.prems(2) same
    show ?thesis by simp
  next
    case False
    then obtain l h where e: "e = ADC l h" by (cases e) simp_all
    from Cons.prems(2) e have lt: "unat (numSamples s) < 10" by simp
    from s1 e ADC_vect_zero [OF lt] have nz: "raw_code l h \<noteq> 0" by auto
    from s1 e ADC_vect_sample [OF lt nz]
    have s1_eq: "numSamples s1 = numSamples s + 1"
      "sumVolt s1 = sumVolt s + word_of_nat (mV (raw_code l h))" "voltage s1 = voltage s"
      by auto
    from lt have "unat (numSamples s + 1) = unat (numSamples s) + 1"
      by (simp add: u8_inc)
    with s1_eq Cons.IH [OF rest] Cons.prems(2) e show ?thesis
      by (simp add: algebra_simps)
  qed
qed

lemma accumulate_succeeds:
  assumes "0 \<notin> set (adc_samples evs)"
    and "unat (numSamples s) + length (adc_samples evs) \<le> 10"
  shows "exec evs s \<noteq> None"
  using assms
proof (induction evs arbitrary: s)
  case Nil
  then show ?case by simp
next
  case (Cons e es)
  show ?case
  proof (cases e)
    case (ADC l h)
    with Cons.prems have lt: "unat (numSamples s) < 10" and nz: "raw_code l h \<noteq> 0"
      by auto
    let ?s1 = "s\<lparr>adcVal := raw_code l h, numSamples := numSamples s + 1,
             sumVolt := sumVolt s + word_of_nat (mV (raw_code l h)),
             ADCSRA := ADCSRA s OR bv ADSC, adc_starts := adc_starts s + 1\<rparr>"
    from lt have "unat (numSamples ?s1) = unat (numSamples s) + 1"
      by (simp add: u8_inc)
    with Cons.prems ADC have "exec es ?s1 \<noteq> None"
      by (intro Cons.IH) auto
    with ADC ADC_vect_sample [OF lt nz] show ?thesis by simp
  next
    case WDT
    with Cons.prems have "exec es (WDT_vect s) \<noteq> None"
      by (intro Cons.IH) (auto simp add: WDT_vect_def sleep_disable_def)
    with WDT show ?thesis by simp
  next
    case TIM0_OVF
    with Cons.prems have "exec es (TIM0_OVF_vect s) \<noteq> None"
      by (intro Cons.IH) (auto simp add: TIM0_OVF_vect_def sleep_disable_def Let_def)
    with TIM0_OVF show ?thesis by simp
  next
    case TIM0_COMPA
    with Cons.prems have "exec es (TIM0_COMPA_vect s) \<noteq> None"
      by (intro Cons.IH) (auto simp add: TIM0_COMPA_vect_def sleep_disable_def Let_def)
    with TIM0_COMPA show ?thesis by simp
  next
    case (MAIN P)
    with Cons.prems have "exec es (sleep_enable (main_body P (sleep_disable s))) \<noteq> None"
      by (intro Cons.IH)
        (auto simp add: sleep_enable_def adc_frame_main_body sleep_disable_def)
    with MAIN show ?thesis by simp
  qed
qed


lemma exec_append:
  "exec (xs @ ys) s = (case exec xs s of None \<Rightarrow> None | Some s' \<Rightarrow> exec ys s')"
  by (induction xs arbitrary: s) (auto split: option.splits)

lemma split_last_sample:
  assumes "adc_samples evs = rs @ [r]"
  shows "\<exists>pre l h post. evs = pre @ ADC l h # post \<and> adc_samples pre = rs
           \<and> raw_code l h = r \<and> adc_samples post = []"
  using assms
proof (induction evs arbitrary: rs)
  case Nil
  then show ?case by simp
next
  case (Cons e es)
  show ?case
  proof (cases "adc_samples [e] = []")
    case True
    then have "adc_samples (e # es) = adc_samples es" by (cases e) simp_all
    with Cons.prems have "adc_samples es = rs @ [r]" by simp
    from Cons.IH [OF this] obtain pre l h post where
      "es = pre @ ADC l h # post" "adc_samples pre = rs" "raw_code l h = r"
      "adc_samples post = []" by blast
    with True have "e # es = (e # pre) @ ADC l h # post \<and> adc_samples (e # pre) = rs
        \<and> raw_code l h = r \<and> adc_samples post = []"
      by (cases e) simp_all
    then show ?thesis by blast
  next
    case False
    then obtain l h where e: "e = ADC l h" by (cases e) simp_all
    show ?thesis
    proof (cases "adc_samples es = []")
      case True
      with Cons.prems e have "e # es = [] @ ADC l h # es \<and> adc_samples [] = rs
          \<and> raw_code l h = r \<and> adc_samples es = []"
        by simp
      then show ?thesis by blast
    next
      case False
      with Cons.prems e obtain rs' where rs: "rs = raw_code l h # rs'"
        and es: "adc_samples es = rs' @ [r]"
        by (cases rs) auto
      from Cons.IH [OF es] obtain pre l' h' post where
        "es = pre @ ADC l' h' # post" "adc_samples pre = rs'" "raw_code l' h' = r"
        "adc_samples post = []" by blast
      with e rs have "e # es = (e # pre) @ ADC l' h' # post \<and> adc_samples (e # pre) = rs
          \<and> raw_code l' h' = r \<and> adc_samples post = []"
        by simp
      then show ?thesis by blast
    qed
  qed
qed

lemma adc_inv_step:
  assumes "adc_inv s" and "step e s = Some s'"
  shows "adc_inv s'"
proof (cases "adc_samples [e] = []")
  case True
  from adc_frame_step [OF assms(2) True] assms(1) show ?thesis
    by (simp add: adc_inv_def)
next
  case False
  then obtain l h where e: "e = ADC l h" by (cases e) simp_all
  show ?thesis
  proof (cases "unat (numSamples s) < 10")
    case True
    with assms(2) e ADC_vect_zero [OF True] have nz: "raw_code l h \<noteq> 0" by auto
    from True have "unat (numSamples s + 1) = unat (numSamples s) + 1"
      by (simp add: u8_inc)
    then have "numSamples s + 1 \<noteq> 0"
      by (simp add: word_unat_eq_iff)
    with assms(2) e ADC_vect_sample [OF True nz] show ?thesis
      by (auto simp add: adc_inv_def)
  next
    case False
    with assms(2) e ADC_vect_publish [OF False] show ?thesis
      by (auto simp add: adc_inv_def)
  qed
qed

lemma adc_inv_reachable: "exec evs power_on = Some s \<Longrightarrow> adc_inv s"
proof -
  have "adc_inv power_on"
    by (simp add: adc_inv_def power_on_def setup_mcu_def reset_state_def)
  with adc_inv_step show "exec evs power_on = Some s \<Longrightarrow> adc_inv s"
    by (rule exec_invariant)
qed

lemma cycle_publishes:
  assumes "numSamples s = 0" and "sumVolt s = 0"
    and "adc_samples evs = rs @ [r]" and "length rs = 10" and "0 \<notin> set rs"
  shows "map_option voltage (exec evs s) = Some (word_of_nat (sum_list (map mV rs)) div 10)"
proof -
  from split_last_sample [OF assms(3)] obtain pre l h post where
    evs: "evs = pre @ ADC l h # post" and pre: "adc_samples pre = rs"
    and post: "adc_samples post = []" by blast
  from assms(1,4,5) pre have "exec pre s \<noteq> None"
    by (intro accumulate_succeeds) simp_all
  then obtain s10 where s10: "exec pre s = Some s10" by blast
  from accumulate [OF s10] assms(1,2,4) pre
  have ten: "unat (numSamples s10) = 10"
    and sum: "sumVolt s10 = word_of_nat (sum_list (map mV rs))"
    by simp_all
  from ten have "\<not> unat (numSamples s10) < 10" by simp
  note pub = ADC_vect_publish [OF this, of l h]
  let ?s11 = "s10\<lparr>adcVal := raw_code l h, voltage := sumVolt s10 div 10, numSamples := 0,
             sumVolt := 0, MCUCR := MCUCR s10 OR bv SM1,
             ADCSRA := ADCSRA s10 AND NOT (bv ADEN)\<rparr>"
  from post have "exec post ?s11 \<noteq> None"
    by (intro accumulate_succeeds) simp_all
  then obtain s' where s': "exec post ?s11 = Some s'" by blast
  from accumulate [OF s'] post have "voltage s' = sumVolt s10 div 10" by simp
  with evs s10 pub s' sum show ?thesis
    by (simp add: exec_append)
qed

lemma unat_average:
  assumes "n < 65536"
  shows "unat ((word_of_nat n :: u16) div 10) = n div 10"
  using assms by (simp add: unat_div unat_of_nat)

text \<open>
  Claim C3, amended. A cycle starts in a reachable state with no sample counted. When the
  ten accumulated raw codes are nonzero and their ten millivolt values \<open>K div code\<close>
  sum to less than 65536 (the accumulator \<open>sumVolt\<close> has 16 bits), the reading
  published at the end of the cycle is that sum divided by 10; in particular ten equal
  codes \<open>r0\<close> publish \<open>K div r0\<close>. Other interrupts and passes of the main loop may
  come between the conversions.
\<close>

theorem C3_average_of_ten:
  assumes "exec before power_on = Some s" and "numSamples s = 0"
    and "adc_samples evs = rs @ [r]" and "length rs = 10" and "0 \<notin> set rs"
    and "sum_list (map mV rs) < 65536"
  shows "map_option (\<lambda>s'. unat (voltage s')) (exec evs s) = Some (sum_list (map mV rs) div 10)
    \<and> (rs = replicate 10 r0 \<longrightarrow>
         map_option (\<lambda>s'. unat (voltage s')) (exec evs s) = Some (mV r0))"
proof -
  from adc_inv_reachable [OF assms(1)] assms(2) have "sumVolt s = 0"
    by (simp add: adc_inv_def)
  from cycle_publishes [OF assms(2) this assms(3,4,5)] obtain s' where
    "exec evs s = Some s'" "voltage s' = word_of_nat (sum_list (map mV rs)) div 10"
    by auto
  with unat_average [OF assms(6)]
  have avg: "map_option (\<lambda>s'. unat (voltage s')) (exec evs s) = Some (sum_list (map mV rs) div 10)"
    by simp
  have "sum_list (map mV (replicate 10 r0)) div 10 = mV r0"
    by (simp add: sum_list_replicate)
  with avg show ?thesis by auto
qed

text \<open>
  Claim C10. After power-up, as long as fewer than eleven conversion-complete interrupts
  have been handled (the eleventh is the one that publishes the first average), the
  voltage reading is the initial 4000, so every evaluation that reads the output-enable
  pin high and the USB pin low returns mode 4, whatever the conversions have measured.
\<close>

theorem C10_initial_reading:
  assumes "exec evs power_on = Some s" and "length (adc_samples evs) \<le> 10"
    and "output_enabled (pins_read PINB s)" and "\<not> usb_present (pins_read PINB s)"
  shows "voltage s = 4000 \<and> fst (getStatus PINB s) = 4"
proof -
  have "numSamples power_on = 0" "voltage power_on = 4000"
    by (simp_all add: power_on_def setup_mcu_def reset_state_def)
  with accumulate [OF assms(1)] assms(2) have v: "voltage s = 4000" by simp
  with assms(3,4) show ?thesis
    by (simp add: getStatus_mode spec_mode_def)
qed


lemma bit_bv: "bit (bv n) m = (m = n \<and> n < 8)"
  by (auto simp add: bv_def bit_simps)

lemma bit_set_bv: "bit (x OR bv n) m = (bit x m \<or> (m = n \<and> n < 8))"
  by (simp add: bit_or_iff bit_bv)

lemma bit_clear_bv: "bit (x AND NOT (bv n)) m = (bit x m \<and> m \<noteq> n)"
  by (auto simp add: bit_and_iff bit_not_iff bit_bv dest: bit_imp_le_length)

lemma rearm:
  assumes "unat (numSamples s) + length xs \<le> 10"
    and "0 \<notin> set (adc_samples (conversions xs))"
  shows "\<exists>s'. exec (conversions xs) s = Some s'
    \<and> unat (numSamples s') = unat (numSamples s) + length xs
    \<and> adc_starts s' = adc_starts s + length xs
    \<and> bit (ADCSRA s') ADEN = bit (ADCSRA s) ADEN
    \<and> (xs = [] \<or> bit (ADCSRA s') ADSC)
    \<and> MCUCR s' = MCUCR s
    \<and> voltage s' = voltage s"
  using assms
proof (induction xs arbitrary: s)
  case Nil
  then show ?case by (simp add: conversions_def)
next
  case (Cons x xs)
  obtain l h where x: "x = (l, h)" by (cases x)
  from Cons.prems x have lt: "unat (numSamples s) < 10" and nz: "raw_code l h \<noteq> 0"
    by (auto simp add: conversions_def)
  let ?s1 = "s\<lparr>adcVal := raw_code l h, numSamples := numSamples s + 1,
             sumVolt := sumVolt s + word_of_nat (mV (raw_code l h)),
             ADCSRA := ADCSRA s OR bv ADSC, adc_starts := adc_starts s + 1\<rparr>"
  from lt have n1: "unat (numSamples ?s1) = unat (numSamples s) + 1"
    by (simp add: u8_inc)
  with Cons.prems x have "\<exists>s'. exec (conversions xs) ?s1 = Some s'
    \<and> unat (numSamples s') = unat (numSamples ?s1) + length xs
    \<and> adc_starts s' = adc_starts ?s1 + length xs
    \<and> bit (ADCSRA s') ADEN = bit (ADCSRA ?s1) ADEN
    \<and> (xs = [] \<or> bit (ADCSRA s') ADSC)
    \<and> MCUCR s' = MCUCR ?s1
    \<and> voltage s' = voltage ?s1"
    by (intro Cons.IH) (auto simp add: conversions_def)
  then obtain s' where s': "exec (conversions xs) ?s1 = Some s'"
    "unat (numSamples s') = unat (numSamples ?s1) + length xs"
    "adc_starts s' = adc_starts ?s1 + length xs"
    "bit (ADCSRA s') ADEN = bit (ADCSRA ?s1) ADEN"
    "xs = [] \<or> bit (ADCSRA s') ADSC"
    "MCUCR s' = MCUCR ?s1" "voltage s' = voltage ?s1"
    by blast
  have "bit (ADCSRA ?s1) ADSC" "bit (ADCSRA ?s1) ADEN = bit (ADCSRA s) ADEN"
    by (simp_all add: bit_set_bv bit_defs)
  with s' n1 x ADC_vect_sample [OF lt nz] show ?case
    by (auto simp add: conversions_def)
qed

text \<open>
  Claim C4, as the code behaves. Starting with no sample counted, each of the first ten
  conversion-complete interrupts counts a sample and starts a further conversion, the
  tenth included: after it ten conversions have been started on top of the one that began
  the cycle, the converter is still as enabled as before and nothing is published. Only
  the interrupt of the eleventh conversion starts no further one, disables the converter
  and selects power-down sleep.
\<close>

theorem C4_eleven_conversions:
  assumes "numSamples s = 0" and "length xs = 10"
    and "0 \<notin> set (adc_samples (conversions xs))"
  shows "map_option (\<lambda>t. (adc_starts t, bit (ADCSRA t) ADEN, bit (ADCSRA t) ADSC, voltage t))
           (exec (conversions xs) s)
         = Some (adc_starts s + 10, bit (ADCSRA s) ADEN, True, voltage s)
    \<and> map_option (\<lambda>t. (adc_starts t, bit (ADCSRA t) ADEN, bit (MCUCR t) SM1, numSamples t))
           (exec (conversions (xs @ [x])) s)
         = Some (adc_starts s + 10, False, True, 0)"
proof -
  from rearm [of s xs] assms obtain s10 where s10: "exec (conversions xs) s = Some s10"
    "unat (numSamples s10) = 10" "adc_starts s10 = adc_starts s + 10"
    "bit (ADCSRA s10) ADEN = bit (ADCSRA s) ADEN" "bit (ADCSRA s10) ADSC"
    "voltage s10 = voltage s"
    by auto
  then have first: "map_option (\<lambda>t. (adc_starts t, bit (ADCSRA t) ADEN, bit (ADCSRA t) ADSC, voltage t))
           (exec (conversions xs) s)
         = Some (adc_starts s + 10, bit (ADCSRA s) ADEN, True, voltage s)"
    by simp
  obtain l h where x: "x = (l, h)" by (cases x)
  from s10(2) have "\<not> unat (numSamples s10) < 10" by simp
  note pub = ADC_vect_publish [OF this, of l h]
  have "conversions (xs @ [x]) = conversions xs @ [ADC l h]"
    by (simp add: conversions_def x)
  with s10 pub have "map_option (\<lambda>t. (adc_starts t, bit (ADCSRA t) ADEN, bit (MCUCR t) SM1, numSamples t))
           (exec (conversions (xs @ [x])) s)
         = Some (adc_starts s + 10, False, True, 0)"
    by (simp add: exec_append bit_set_bv bit_clear_bv bit_defs)
  with first show ?thesis by simp
qed

theorem C4_eleven_conversions_witness:
  "numSamples power_on = 0
   \<and> length [(25, 1), (25, 1), (25, 1), (25, 1), (25, 1),
              (25, 1), (25, 1), (25, 1), (25, 1), (25 :: u8, 1 :: u8)] = 10
   \<and> map_option (\<lambda>t. (adc_starts t, bit (ADCSRA t) ADEN, bit (MCUCR t) SM1, numSamples t))
        (exec (conversions ([(25, 1), (25, 1), (25, 1), (25, 1), (25, 1),
              (25, 1), (25, 1), (25, 1), (25, 1), (25, 1)] @ [(25, 1)])) power_on)
      = Some (adc_starts power_on + 10, False, True, 0)"
  using C4_eleven_conversions [of power_on "[(25, 1), (25, 1), (25, 1), (25, 1), (25, 1),
              (25, 1), (25, 1), (25, 1), (25, 1), (25, 1)]" "(25, 1)"]
  by (simp add: start_defs conversions_def raw_code_def)

theorem C3_average_of_ten_witness:
  "exec [] power_on = Some power_on \<and> numSamples power_on = 0
   \<and> adc_samples [ADC 25 1, ADC 25 1, ADC 25 1, ADC 25 1, ADC 25 1, ADC 25 1, ADC 25 1,
        ADC 25 1, ADC 25 1, ADC 25 1, ADC 25 1]
      = [281, 281, 281, 281, 281, 281, 281, 281, 281, 281] @ [281]
   \<and> sum_list (map mV [281, 281, 281, 281, 281, 281, 281, 281, 281, 281]) < 65536
   \<and> map_option (\<lambda>s'. unat (voltage s'))
        (exec [ADC 25 1, ADC 25 1, ADC 25 1, ADC 25 1, ADC 25 1, ADC 25 1, ADC 25 1,
           ADC 25 1, ADC 25 1, ADC 25 1, ADC 25 1] power_on) = Some 4008"
  using C3_average_of_ten [of "[]" power_on
      "[ADC 25 1, ADC 25 1, ADC 25 1, ADC 25 1, ADC 25 1, ADC 25 1, ADC 25 1,
        ADC 25 1, ADC 25 1, ADC 25 1, ADC 25 1]"
      "[281, 281, 281, 281, 281, 281, 281, 281, 281, 281]" 281 281]
  by (simp add: start_defs raw_code_def mV_def K_def)

text \<open>
  Claim C3 as stated fails: ten equal raw codes 171 have the millivolt value 6587 each,
  their sum 65870 wraps to 334 in the 16-bit accumulator, and the published reading is 33.
\<close>

theorem C3_counterexample:
  "map_option voltage
     (exec [ADC 171 0, ADC 171 0, ADC 171 0, ADC 171 0, ADC 171 0, ADC 171 0, ADC 171 0,
        ADC 171 0, ADC 171 0, ADC 171 0, ADC 171 0] power_on) = Some 33
   \<and> sum_list (map mV [171, 171, 171, 171, 171, 171, 171, 171, 171, 171]) div 10 = 6587
   \<and> K div 171 = 6587"
  by (simp add: start_defs ADC_vect_def raw_code_def Let_def mV_def K_def bv_def bit_defs)

lemma early_state_reached: "exec early_run power_on = Some early_state"
  by (simp add: early_run_def early_state_def start_defs ADC_vect_def raw_code_def
      Let_def bv_def bit_defs const_defs)

theorem C10_initial_reading_witness:
  "exec early_run power_on = Some early_state
   \<and> length (adc_samples early_run) \<le> 10
   \<and> output_enabled (pins_read (\<lambda>_. 2) early_state)
   \<and> \<not> usb_present (pins_read (\<lambda>_. 2) early_state)
   \<and> sumVolt early_state div 10 = 3128
   \<and> voltage early_state = 4000
   \<and> fst (getStatus (\<lambda>_. 2) early_state) = 4"
proof -
  let ?P = "\<lambda>_ :: mcu. 2 :: u8"
  note reach = early_state_reached
  have few: "length (adc_samples early_run) \<le> 10"
    by (simp add: early_run_def)
  have pins: "output_enabled (pins_read ?P early_state)"
    "\<not> usb_present (pins_read ?P early_state)"
    by (simp_all add: read_defs)
  have measured: "sumVolt early_state div 10 = 3128"
    by (simp add: early_state_def)
  note C10_initial_reading [OF reach few pins]
  with reach few pins measured show ?thesis by (intro conjI) simp_all
qed

section \<open>The main loop and the actuator\<close>

lemma status_frame_getStatus:
  "mStatus (snd (getStatus P s)) = mStatus s"
  "pStatus (snd (getStatus P s)) = pStatus s"
  "requestStatus (snd (getStatus P s)) = requestStatus s"
  "setMode_calls (snd (getStatus P s)) = setMode_calls s"
  by (simp_all add: getStatus_def Let_def start_adc_cycles_def release_OUT_ENA_def)

lemma status_frame_setMode:
  "mStatus (setMode s) = mStatus s"
  "pStatus (setMode s) = pStatus s"
  "setMode_calls (setMode s) = setMode_calls s + 1"
  by (simp_all add: setMode_def Let_def)

lemma set_clear_idem:
  fixes x a b :: u8
  shows "((x OR a) AND b OR a) AND b = (x OR a) AND b"
  by (rule bit_eqI) (auto simp add: bit_simps)

lemma clear_set_idem:
  fixes x a b :: u8
  shows "((x AND b) OR a) AND b OR a = (x AND b) OR a"
  by (rule bit_eqI) (auto simp add: bit_simps)

lemma clear_idem:
  fixes x b :: u8
  shows "(x AND b) AND b = x AND b"
  by (rule bit_eqI) (auto simp add: bit_simps)

lemma set_idem:
  fixes x a :: u8
  shows "(x OR a) OR a = x OR a"
  by (rule bit_eqI) (auto simp add: bit_simps)

lemmas idem = set_clear_idem clear_set_idem clear_idem set_idem

lemma setMode_idempotent:
  "setMode (setMode s) = (setMode s)\<lparr>setMode_calls := setMode_calls s + 2\<rparr>"
proof -
  consider "mStatus s = 2" | "mStatus s = 3" | "mStatus s = 4" | "mStatus s = 5"
    | "mStatus s = 6" | "mStatus s = 7" | "mStatus s = 8" | "mStatus s = 9"
    | "mStatus s \<noteq> 2" "mStatus s \<noteq> 3" "mStatus s \<noteq> 4" "mStatus s \<noteq> 5"
      "mStatus s \<noteq> 6" "mStatus s \<noteq> 7" "mStatus s \<noteq> 8" "mStatus s \<noteq> 9"
    by blast
  then show ?thesis
    by cases (simp_all add: setMode_def Let_def idem)
qed

lemma main_body_unchanged_mode:
  assumes "requestStatus s = 1" and "fst (getStatus P s) = pStatus s"
  shows "main_body P s =
     (snd (getStatus P s))\<lparr>mStatus := pStatus s, pStatus := pStatus s, requestStatus := 0\<rparr>"
  using assms by (simp add: main_body_def Let_def split_beta status_frame_getStatus)

lemma main_body_changed_mode:
  assumes "requestStatus s = 1" and "fst (getStatus P s) \<noteq> pStatus s"
  shows "main_body P s =
     (setMode ((snd (getStatus P s))\<lparr>mStatus := fst (getStatus P s)\<rparr>))
       \<lparr>pStatus := fst (getStatus P s), requestStatus := 0\<rparr>"
  using assms
  by (simp add: main_body_def Let_def split_beta status_frame_getStatus status_frame_setMode)

lemma main_body_idle:
  assumes "requestStatus s \<noteq> 1"
  shows "main_body P s = s"
  using assms by (simp add: main_body_def)

lemma main_body_calls:
  "setMode_calls (main_body P s) =
     setMode_calls s + (if requestStatus s = 1 \<and> fst (getStatus P s) \<noteq> pStatus s then 1 else 0)"
proof (cases "requestStatus s = 1")
  case False
  then show ?thesis by (simp add: main_body_idle)
next
  case True
  show ?thesis
  proof (cases "fst (getStatus P s) = pStatus s")
    case True
    with \<open>requestStatus s = 1\<close> show ?thesis
      by (simp add: main_body_unchanged_mode status_frame_getStatus)
  next
    case False
    with \<open>requestStatus s = 1\<close> show ?thesis
      by (simp add: main_body_changed_mode status_frame_getStatus status_frame_setMode)
  qed
qed

lemma main_body_pStatus:
  assumes "requestStatus s = 1"
  shows "pStatus (main_body P s) = fst (getStatus P s)"
proof (cases "fst (getStatus P s) = pStatus s")
  case True
  with assms show ?thesis by (simp add: main_body_unchanged_mode)
next
  case False
  with assms show ?thesis by (simp add: main_body_changed_mode)
qed

lemma pStatus_interrupts:
  assumes "exec irqs s = Some t" and "interrupts_only irqs"
  shows "pStatus t = pStatus s"
  using assms
proof (induction irqs arbitrary: s)
  case Nil
  then show ?case by simp
next
  case (Cons e es)
  from Cons.prems(1) obtain s1 where s1: "step e s = Some s1" and rest: "exec es s1 = Some t"
    by (auto split: option.splits)
  from Cons.prems(2) have es: "interrupts_only es" by (cases e) simp_all
  from s1 Cons.prems(2) have "pStatus s1 = pStatus s"
    by (cases e)
      (auto simp add: WDT_vect_def sleep_disable_def TIM0_OVF_vect_def TIM0_COMPA_vect_def
        ADC_vect_def Let_def split: if_splits)
  with Cons.IH [OF rest es] show ?case by simp
qed

text \<open>
  Claim C7. A pass of the main loop calls \<open>setMode\<close> exactly when the freshly
  evaluated mode differs from \<open>pStatus\<close>, the mode of the previous pass. So when a
  pass is followed, after any interrupts, by a second pass that evaluates the same mode,
  the second pass does not call \<open>setMode\<close>: what it leaves is what \<open>getStatus\<close>
  left, with the status variables stored. And \<open>setMode\<close> itself, called twice in
  succession, leaves the pins and registers of the first call.
\<close>

theorem C7_edge_triggered:
  assumes "requestStatus s = 1"
    and "exec (MAIN P # irqs) s = Some t" and "interrupts_only irqs"
    and "requestStatus t = 1"
    and "fst (getStatus P' (sleep_disable t)) = fst (getStatus P (sleep_disable s))"
  shows "setMode_calls (main_body P s) =
           setMode_calls s + (if fst (getStatus P s) \<noteq> pStatus s then 1 else 0)
    \<and> main_body P' (sleep_disable t) =
         (snd (getStatus P' (sleep_disable t)))
           \<lparr>mStatus := pStatus t, pStatus := pStatus t, requestStatus := 0\<rparr>
    \<and> setMode_calls (main_body P' (sleep_disable t)) = setMode_calls t
    \<and> setMode (setMode u) = (setMode u)\<lparr>setMode_calls := setMode_calls u + 2\<rparr>"
proof -
  let ?s1 = "sleep_enable (main_body P (sleep_disable s))"
  from assms(2) have run: "exec irqs ?s1 = Some t" by simp
  from assms(1) have req: "requestStatus (sleep_disable s) = 1"
    by (simp add: sleep_disable_def)
  have "pStatus ?s1 = fst (getStatus P (sleep_disable s))"
    using main_body_pStatus [OF req] by (simp add: sleep_enable_def)
  with pStatus_interrupts [OF run assms(3)] assms(5)
  have same: "fst (getStatus P' (sleep_disable t)) = pStatus (sleep_disable t)"
    by (simp add: sleep_disable_def)
  from assms(4) have req': "requestStatus (sleep_disable t) = 1"
    by (simp add: sleep_disable_def)
  have second: "main_body P' (sleep_disable t) =
         (snd (getStatus P' (sleep_disable t)))
           \<lparr>mStatus := pStatus t, pStatus := pStatus t, requestStatus := 0\<rparr>"
    using main_body_unchanged_mode [OF req' same] by (simp add: sleep_disable_def)
  have calls: "setMode_calls (main_body P' (sleep_disable t)) = setMode_calls t"
    using same req' by (simp add: main_body_calls) (simp add: sleep_disable_def)
  from assms(1) have first: "setMode_calls (main_body P s) =
           setMode_calls s + (if fst (getStatus P s) \<noteq> pStatus s then 1 else 0)"
    by (simp add: main_body_calls)
  from first second calls setMode_idempotent [of u] show ?thesis
    by (intro conjI)
qed

theorem C7_edge_triggered_witness:
  "requestStatus power_on = 1
   \<and> exec (MAIN (\<lambda>_. 2) # [WDT]) power_on
       = Some (WDT_vect (sleep_enable (main_body (\<lambda>_. 2) (sleep_disable power_on))))
   \<and> interrupts_only [WDT]
   \<and> requestStatus (WDT_vect (sleep_enable (main_body (\<lambda>_. 2) (sleep_disable power_on)))) = 1
   \<and> fst (getStatus (\<lambda>_. 2)
        (sleep_disable (WDT_vect (sleep_enable (main_body (\<lambda>_. 2) (sleep_disable power_on))))))
      = fst (getStatus (\<lambda>_. 2) (sleep_disable power_on))
   \<and> setMode_calls (main_body (\<lambda>_. 2)
        (sleep_disable (WDT_vect (sleep_enable (main_body (\<lambda>_. 2) (sleep_disable power_on))))))
      = setMode_calls (WDT_vect (sleep_enable (main_body (\<lambda>_. 2) (sleep_disable power_on))))"
proof -
  let ?P = "\<lambda>_ :: mcu. 2 :: u8"
  let ?t = "WDT_vect (sleep_enable (main_body ?P (sleep_disable power_on)))"
  have h1: "requestStatus power_on = 1"
    by (simp add: start_defs)
  have h2: "exec (MAIN ?P # [WDT]) power_on = Some ?t"
    by simp
  have h3: "interrupts_only [WDT]"
    by simp
  have h4: "requestStatus ?t = 1"
    by (simp add: WDT_vect_def)
  have v: "voltage (sleep_disable ?t) = voltage (sleep_disable power_on)"
    by (simp add: WDT_vect_def sleep_disable_def sleep_enable_def adc_frame_main_body)
  have h5: "fst (getStatus ?P (sleep_disable ?t)) = fst (getStatus ?P (sleep_disable power_on))"
    by (simp add: getStatus_mode pins_read_def v)
  from C7_edge_triggered [OF h1 h2 h3 h4 h5]
  have "setMode_calls (main_body ?P (sleep_disable ?t)) = setMode_calls ?t"
    by (rule conjunct2 [THEN conjunct2, THEN conjunct1])
  with h1 h2 h3 h4 h5 show ?thesis
    by (intro conjI)
qed

lemma first_pass_applies: "setMode_calls (main_body (\<lambda>_. 2) power_on) = 1"
  by (simp add: main_body_calls getStatus_mode spec_mode_def read_defs start_defs)

section \<open>The critical cut-off\<close>

lemma out_frame_getStatus:
  "bit (PORTB (snd (getStatus P s))) OUT_ENA = bit (PORTB s) OUT_ENA"
  "grn_glw (snd (getStatus P s)) = grn_glw s"
  "red_glw (snd (getStatus P s)) = red_glw s"
  by (simp_all add: getStatus_def Let_def start_adc_cycles_def release_OUT_ENA_def
      bit_xor_iff bit_bv pin_defs)

lemma out_inv_setMode:
  assumes "out_inv s"
  shows "out_inv (setMode s)"
  using assms
  by (simp add: out_inv_def setMode_def Let_def bit_and_iff bit_or_iff bit_bv pin_defs)

lemma out_inv_main_body:
  assumes "out_inv s"
  shows "out_inv (main_body P s)"
proof (cases "requestStatus s = 1")
  case False
  with assms show ?thesis by (simp add: main_body_idle)
next
  case True
  let ?s2 = "(snd (getStatus P s))\<lparr>mStatus := fst (getStatus P s)\<rparr>"
  from assms have inv2: "out_inv ?s2"
    by (simp add: out_inv_def out_frame_getStatus)
  show ?thesis
  proof (cases "fst (getStatus P s) = pStatus s")
    case True
    with \<open>requestStatus s = 1\<close> assms show ?thesis
      by (simp add: main_body_unchanged_mode out_inv_def out_frame_getStatus)
  next
    case False
    with \<open>requestStatus s = 1\<close> out_inv_setMode [OF inv2] show ?thesis
      by (simp add: main_body_changed_mode out_inv_def)
  qed
qed

lemma out_frame_tick:
  "grn_glw (TIM0_COMPA_vect s) = grn_glw s"
  "red_glw (TIM0_COMPA_vect s) = red_glw s"
  "bit (PORTB (TIM0_COMPA_vect s)) n \<longrightarrow> bit (PORTB s) n"
  by (simp_all add: TIM0_COMPA_vect_def Let_def sleep_disable_def bit_and_iff)

lemma u8_le_1: "(g :: u8) \<le> 1 \<Longrightarrow> g = 0 \<or> g = 1"
  by (auto simp add: word_le_nat_alt word_unat_eq_iff)

lemma out_inv_step:
  assumes "out_inv s" and "step e s = Some s'"
  shows "out_inv s'"
proof (cases e)
  case WDT
  with assms show ?thesis by (auto simp add: out_inv_def WDT_vect_def sleep_disable_def)
next
  case (ADC l h)
  with assms show ?thesis
    by (auto simp add: out_inv_def ADC_vect_def Let_def split: if_splits)
next
  case TIM0_OVF
  from assms(1) u8_le_1 [of "red_glw s"] have "\<not> bit (red_glw s) OUT_ENA"
    by (auto simp add: out_inv_def pin_defs)
  with TIM0_OVF assms show ?thesis
    by (auto simp add: out_inv_def TIM0_OVF_vect_def sleep_disable_def Let_def
        bit_or_iff bit_push_bit_iff pin_defs)
next
  case TIM0_COMPA
  with assms out_frame_tick(3) [of s OUT_ENA] show ?thesis
    by (auto simp add: out_inv_def out_frame_tick(1,2))
next
  case (MAIN P)
  from assms(1) have "out_inv (sleep_disable s)"
    by (simp add: out_inv_def sleep_disable_def)
  then have "out_inv (main_body P (sleep_disable s))" by (rule out_inv_main_body)
  with MAIN assms(2) show ?thesis
    by (auto simp add: out_inv_def sleep_enable_def)
qed

lemma out_inv_reachable: "exec evs power_on = Some s \<Longrightarrow> out_inv s"
proof -
  have "out_inv power_on"
    by (simp add: out_inv_def power_on_def setup_mcu_def reset_state_def)
  with out_inv_step show "exec evs power_on = Some s \<Longrightarrow> out_inv s"
    by (rule exec_invariant)
qed


lemma below_critical:
  fixes v :: u16
  assumes "v \<le> 3209"
  shows "\<not> 3419 < v" and "\<not> 3304 < v" and "\<not> 3209 < v"
  using assms by (simp_all add: word_le_nat_alt word_less_nat_alt)

lemma getStatus_critical:
  assumes "output_enabled (pins_read P s)" and "\<not> usb_present (pins_read P s)"
    and "voltage s \<le> BATTERY_CRITICAL"
  shows "fst (getStatus P s) = 7" and "bit (DDRB (snd (getStatus P s))) OUT_ENA"
proof -
  from assms(3) have v: "\<not> 3419 < voltage s" "\<not> 3304 < voltage s" "\<not> 3209 < voltage s"
    by (simp_all add: const_defs below_critical)
  with assms(1,2) show "fst (getStatus P s) = 7"
    by (simp add: getStatus_mode spec_mode_def)
  from assms(1,2) have pins: "P (release_OUT_ENA s) AND bv OUT_ENA \<noteq> 0"
    "P (release_OUT_ENA s) AND bv USB_STA = 0"
    by (simp_all add: test_bit pins_read_def output_enabled_def usb_present_def)
  from pins show "bit (DDRB (snd (getStatus P s))) OUT_ENA"
    by (simp add: getStatus_def Let_def v const_defs start_adc_cycles_def
        bit_set_bv pin_defs)
qed

lemma getStatus_mode7_DDRB:
  assumes "fst (getStatus P s) = 7"
  shows "bit (DDRB (snd (getStatus P s))) OUT_ENA"
proof -
  from assms have "output_enabled (pins_read P s) \<and> \<not> usb_present (pins_read P s)
      \<and> \<not> 3209 < voltage s"
    by (simp add: getStatus_mode spec_mode_def split: if_splits)
  then show ?thesis
    by (intro getStatus_critical(2)) (simp_all add: const_defs not_less)
qed

lemma setMode_7_DDRB:
  assumes "mStatus s = 7"
  shows "bit (DDRB (setMode s)) OUT_ENA"
  using assms by (simp add: setMode_def Let_def bit_set_bv pin_defs)

lemma main_body_mode7_DDRB:
  assumes "requestStatus s = 1" and "fst (getStatus P s) = 7"
  shows "bit (DDRB (main_body P s)) OUT_ENA"
proof (cases "fst (getStatus P s) = pStatus s")
  case True
  with assms getStatus_mode7_DDRB [OF assms(2)] show ?thesis
    by (simp add: main_body_unchanged_mode)
next
  case False
  with assms show ?thesis
    by (simp add: main_body_changed_mode setMode_7_DDRB)
qed

lemma getStatus_DDRB:
  "DDRB (snd (getStatus P s)) =
     (if fst (getStatus P s) = 7 then DDRB (release_OUT_ENA s) OR bv OUT_ENA
      else DDRB (release_OUT_ENA s))"
  by (simp add: getStatus_def Let_def start_adc_cycles_def)

lemma release_DDRB:
  assumes "bit (DDRB s) OUT_ENA = (mStatus s = 7)"
  shows "\<not> bit (DDRB (release_OUT_ENA s)) OUT_ENA"
  using assms by (simp add: release_OUT_ENA_def bit_clear_bv)

lemma getStatus_line:
  assumes "bit (DDRB s) OUT_ENA = (mStatus s = 7)"
  shows "bit (DDRB (snd (getStatus P s))) OUT_ENA = (fst (getStatus P s) = 7)"
  using release_DDRB [OF assms]
  by (simp add: getStatus_DDRB bit_set_bv pin_defs)

lemma setMode_line:
  "bit (DDRB (setMode s)) OUT_ENA = (mStatus s = 7)"
  by (simp add: setMode_def Let_def bit_and_iff bit_or_iff bit_not_iff bit_bv pin_defs)

lemma line_inv_main_body:
  assumes "line_inv s"
  shows "line_inv (main_body P s)"
proof -
  from assms have out: "out_inv s" and line: "bit (DDRB s) OUT_ENA = (mStatus s = 7)"
    by (simp_all add: line_inv_def)
  note out' = out_inv_main_body [OF out, of P]
  have "bit (DDRB (main_body P s)) OUT_ENA = (mStatus (main_body P s) = 7)"
  proof (cases "requestStatus s = 1")
    case False
    with line show ?thesis by (simp add: main_body_idle)
  next
    case True
    show ?thesis
    proof (cases "fst (getStatus P s) = pStatus s")
      case same: True
      from getStatus_line [OF line, of P] same show ?thesis
        by (simp add: main_body_unchanged_mode [OF True same])
    next
      case False
      show ?thesis
        by (simp add: main_body_changed_mode [OF True False] setMode_line
            status_frame_setMode)
    qed
  qed
  with out' show ?thesis by (simp add: line_inv_def)
qed

lemma line_frame_tick:
  "DDRB (TIM0_COMPA_vect s) = DDRB s"
  "mStatus (TIM0_COMPA_vect s) = mStatus s"
  by (simp_all add: TIM0_COMPA_vect_def Let_def sleep_disable_def)

lemma line_inv_step:
  assumes "line_inv s" and "step e s = Some s'"
  shows "line_inv s'"
proof -
  from assms(1) have out: "out_inv s" and line: "bit (DDRB s) OUT_ENA = (mStatus s = 7)"
    by (simp_all add: line_inv_def)
  note out' = out_inv_step [OF out assms(2)]
  have "bit (DDRB s') OUT_ENA = (mStatus s' = 7)"
  proof (cases e)
    case WDT
    with assms(2) line show ?thesis by (auto simp add: WDT_vect_def sleep_disable_def)
  next
    case (ADC l h)
    with assms(2) line show ?thesis
      by (auto simp add: ADC_vect_def Let_def split: if_splits)
  next
    case TIM0_OVF
    with assms(2) line show ?thesis
      by (auto simp add: TIM0_OVF_vect_def sleep_disable_def Let_def)
  next
    case TIM0_COMPA
    with assms(2) line show ?thesis
      by (auto simp add: line_frame_tick)
  next
    case (MAIN P)
    from assms(1) have "line_inv (sleep_disable s)"
      by (simp add: line_inv_def out_inv_def sleep_disable_def)
    then have "line_inv (main_body P (sleep_disable s))" by (rule line_inv_main_body)
    with MAIN assms(2) show ?thesis
      by (auto simp add: line_inv_def sleep_enable_def)
  qed
  with out' show ?thesis by (simp add: line_inv_def)
qed

lemma line_inv_reachable: "exec evs power_on = Some s \<Longrightarrow> line_inv s"
proof -
  have "line_inv power_on"
    by (simp add: line_inv_def out_inv_def power_on_def setup_mcu_def reset_state_def)
  with line_inv_step show "exec evs power_on = Some s \<Longrightarrow> line_inv s"
    by (rule exec_invariant)
qed

lemma PINB_of_OUT_ENA:
  "bit (PINB_of line s) OUT_ENA =
     (if bit (DDRB s) OUT_ENA then bit (PORTB s) OUT_ENA
      else bit (line (busy_us s)) OUT_ENA)"
  by (simp add: PINB_of_def bit_or_iff bit_and_iff bit_not_iff pin_defs)

lemma released_read:
  assumes "bit (DDRB s) OUT_ENA = (mStatus s = 7)"
  shows "output_enabled (pins_read (PINB_of line) s) =
     bit (line (if mStatus s = 7 then busy_us s + 5 else busy_us s)) OUT_ENA"
  using release_DDRB [OF assms]
  by (simp add: output_enabled_def pins_read_def PINB_of_OUT_ENA)
    (simp add: release_OUT_ENA_def)

text \<open>
  Claim C8, amended. In every reachable state: an evaluation that reads the output-enable
  pin high and the USB pin low while the voltage reading is at most 3209 returns mode 7
  and leaves the OUT_ENA pin driven low (configured as output, port bit clear), and so
  does the whole pass of the main loop. With the input register of the device, the
  OUT_ENA bit an evaluation reads is the external level of the line at the moment of the
  read, which after a stored mode 7 is 5 microseconds after the entry. For on entry with
  the stored mode 7 the controller drives the line low, so that a read would return "off"
  whatever the external level; the evaluation first releases the line (it stops driving
  it; it does not disable the output) and reads it after the wait.
\<close>

theorem C8_critical_cutoff:
  assumes "exec evs power_on = Some s"
  shows "(output_enabled (pins_read P s) \<and> \<not> usb_present (pins_read P s)
            \<and> voltage s \<le> BATTERY_CRITICAL
          \<longrightarrow> fst (getStatus P s) = 7
              \<and> drives_low (snd (getStatus P s)) OUT_ENA
              \<and> (requestStatus s = 1 \<longrightarrow> drives_low (main_body P s) OUT_ENA))
    \<and> output_enabled (pins_read (PINB_of line) s) =
         bit (line (if mStatus s = 7 then busy_us s + 5 else busy_us s)) OUT_ENA
    \<and> (mStatus s = 7
          \<longrightarrow> drives_low s OUT_ENA
              \<and> \<not> output_enabled (PINB_of line s)
              \<and> \<not> drives_low (release_OUT_ENA s) OUT_ENA)"
proof -
  from assms have inv: "line_inv s" by (rule line_inv_reachable)
  then have out: "out_inv s" and ddrb: "bit (DDRB s) OUT_ENA = (mStatus s = 7)"
    by (simp_all add: line_inv_def)
  have cutoff: "fst (getStatus P s) = 7 \<and> drives_low (snd (getStatus P s)) OUT_ENA
      \<and> (requestStatus s = 1 \<longrightarrow> drives_low (main_body P s) OUT_ENA)"
    if a: "output_enabled (pins_read P s)" "\<not> usb_present (pins_read P s)"
      "voltage s \<le> BATTERY_CRITICAL"
  proof -
    from a have m: "fst (getStatus P s) = 7"
      by (rule getStatus_critical(1))
    from out have low: "\<not> bit (PORTB (snd (getStatus P s))) OUT_ENA"
      by (simp add: out_inv_def out_frame_getStatus)
    from out_inv_main_body [OF out] have low': "\<not> bit (PORTB (main_body P s)) OUT_ENA"
      by (simp add: out_inv_def)
    from m low low' getStatus_mode7_DDRB [OF m] main_body_mode7_DDRB [OF _ m]
    show ?thesis by (simp add: drives_low_def)
  qed
  note read = released_read [OF ddrb, of line]
  have forced: "drives_low s OUT_ENA \<and> \<not> output_enabled (PINB_of line s)
      \<and> \<not> drives_low (release_OUT_ENA s) OUT_ENA"
    if "mStatus s = 7"
  proof -
    from that ddrb out have "bit (DDRB s) OUT_ENA" "\<not> bit (PORTB s) OUT_ENA"
      by (simp_all add: out_inv_def)
    with release_DDRB [OF ddrb] show ?thesis
      by (simp add: drives_low_def output_enabled_def PINB_of_OUT_ENA)
  qed
  from cutoff read forced show ?thesis by blast
qed

lemma critical_state_reached: "exec critical_run power_on = Some critical_state"
  by (simp add: critical_run_def critical_state_def start_defs ADC_vect_def raw_code_def
      Let_def main_body_def getStatus_def setMode_def release_OUT_ENA_def
      start_adc_cycles_def sleep_enable_def sleep_disable_def WDT_vect_def bv_def
      PINB_of_def switch_on_def bit_defs pin_defs const_defs)

theorem C8_critical_cutoff_witness:
  "exec critical_run power_on = Some critical_state
   \<and> output_enabled (pins_read (PINB_of switch_on) critical_state)
   \<and> \<not> usb_present (pins_read (PINB_of switch_on) critical_state)
   \<and> voltage critical_state \<le> BATTERY_CRITICAL
   \<and> requestStatus critical_state = 1
   \<and> mStatus critical_state = 7
   \<and> fst (getStatus (PINB_of switch_on) critical_state) = 7
   \<and> drives_low (snd (getStatus (PINB_of switch_on) critical_state)) OUT_ENA
   \<and> drives_low (main_body (PINB_of switch_on) critical_state) OUT_ENA
   \<and> drives_low critical_state OUT_ENA
   \<and> \<not> output_enabled (PINB_of switch_on critical_state)"
proof -
  let ?P = "PINB_of switch_on"
  note reach = critical_state_reached
  have st: "voltage critical_state \<le> BATTERY_CRITICAL" "requestStatus critical_state = 1"
    "mStatus critical_state = 7"
    by (simp_all add: critical_state_def const_defs)
  note c8 = C8_critical_cutoff [OF reach, of ?P switch_on]
  from c8 st(3) have pins: "output_enabled (pins_read ?P critical_state)"
    by (simp add: switch_on_def bit_bv pin_defs)
  have usb: "\<not> usb_present (pins_read ?P critical_state)"
    by (simp add: read_defs PINB_of_def switch_on_def critical_state_def bv_def)
  from c8 pins usb st
  have "fst (getStatus ?P critical_state) = 7
    \<and> drives_low (snd (getStatus ?P critical_state)) OUT_ENA
    \<and> drives_low (main_body ?P critical_state) OUT_ENA
    \<and> drives_low critical_state OUT_ENA
    \<and> \<not> output_enabled (PINB_of switch_on critical_state)"
    by blast
  with reach pins usb st show ?thesis by blast
qed

text \<open>
  Claim C8 as stated fails in its second half. In the critical state the stored mode is 7
  and the controller drives the line low, so the output is disabled before the
  evaluation. The first step of the evaluation does not disable it: it releases the line,
  which is then no longer driven low, and with the switch on the evaluation reads it as
  enabled.
\<close>

theorem C8_counterexample:
  "exec critical_run power_on = Some critical_state
   \<and> mStatus critical_state = 7
   \<and> drives_low critical_state OUT_ENA
   \<and> \<not> drives_low (release_OUT_ENA critical_state) OUT_ENA
   \<and> output_enabled (pins_read (PINB_of switch_on) critical_state)"
  using critical_state_reached
  by (simp add: critical_state_def drives_low_def read_defs PINB_of_def switch_on_def
      bv_def)

section \<open>The sampling cadence of the evaluator\<close>

lemma u8_mod_4: "((c :: u8) mod 4 = 0) = (unat c mod 4 = 0)"
  by (simp add: word_unat_eq_iff unat_mod)

lemma u8_mod_8: "((c :: u8) mod 8 = 0) = (unat c mod 8 = 0)"
  by (simp add: word_unat_eq_iff unat_mod)

lemma u8_inc_mod_4: "unat (c + 1 :: u8) mod 4 = (unat c + 1) mod 4"
proof -
  have "unat (c + 1) = (unat c + 1) mod 256"
    by (simp add: unat_word_ariths)
  moreover have "(unat c + 1) mod 256 mod 4 = (unat c + 1) mod 4"
    by (rule mod_mod_cancel) simp
  ultimately show ?thesis by simp
qed

lemma u8_inc_mod_8: "unat (c + 1 :: u8) mod 8 = (unat c + 1) mod 8"
proof -
  have "unat (c + 1) = (unat c + 1) mod 256"
    by (simp add: unat_word_ariths)
  moreover have "(unat c + 1) mod 256 mod 8 = (unat c + 1) mod 8"
    by (rule mod_mod_cancel) simp
  ultimately show ?thesis by simp
qed

lemma getStatus_watchdogCount:
  "watchdogCount (snd (getStatus P s)) =
     (if fst (getStatus P s) = 4
      then (if watchdogCount s mod 4 = 0 then 0 else watchdogCount s) + 1
      else if fst (getStatus P s) = 5 \<or> fst (getStatus P s) = 7
      then (if (watchdogCount s + 1) mod 4 = 0 then 0 else watchdogCount s + 1)
      else if fst (getStatus P s) = 6
      then (if (watchdogCount s + 1) mod 8 = 0 then 0 else watchdogCount s + 1)
      else watchdogCount s)"
  by (simp add: getStatus_def Let_def start_adc_cycles_def release_OUT_ENA_def const_defs)

lemma getStatus_started:
  "started (fst (getStatus P s)) s (snd (getStatus P s)) =
     (if fst (getStatus P s) = 4 then watchdogCount s mod 4 = 0
      else if fst (getStatus P s) = 5 \<or> fst (getStatus P s) = 7
      then (watchdogCount s + 1) mod 4 = 0
      else if fst (getStatus P s) = 6 then (watchdogCount s + 1) mod 8 = 0
      else False)"
  by (simp add: started_def getStatus_def Let_def start_adc_cycles_def release_OUT_ENA_def
      const_defs)

lemma getStatus_skipped:
  "skipped s (snd (getStatus P s)) =
     (if fst (getStatus P s) = 4 then watchdogCount s mod 4 \<noteq> 0
      else if fst (getStatus P s) = 5 \<or> fst (getStatus P s) = 7
      then (watchdogCount s + 1) mod 4 \<noteq> 0
      else if fst (getStatus P s) = 6 then (watchdogCount s + 1) mod 8 \<noteq> 0
      else skipped s (release_OUT_ENA s))"
  by (simp add: skipped_def getStatus_def Let_def start_adc_cycles_def release_OUT_ENA_def
      const_defs)

lemma getStatus_skipped_or_started:
  assumes "fst (getStatus P s) = 4 \<or> fst (getStatus P s) = 5 \<or> fst (getStatus P s) = 6
    \<or> fst (getStatus P s) = 7"
  shows "skipped s (snd (getStatus P s)) = (\<not> started (fst (getStatus P s)) s (snd (getStatus P s)))"
  unfolding getStatus_skipped getStatus_started using assms by auto

lemma period_simps: "period 4 = 4" "period 5 = 4" "period 6 = 8" "period 7 = 4"
  by (simp_all add: period_def)

lemma target_simps: "target 4 = 0" "target 5 = 3" "target 6 = 7" "target 7 = 3"
  by (simp_all add: target_def period_def)

lemma inc_phase_4: "unat (c + 1 :: u8) mod 4 = (unat c mod 4 + 1) mod 4"
  unfolding u8_inc_mod_4 by presburger

lemma inc_phase_8: "unat (c + 1 :: u8) mod 8 = (unat c mod 8 + 1) mod 8"
  unfolding u8_inc_mod_8 by presburger

lemma fire_before_4: "((c :: u8) mod 4 = 0) = (unat c mod 4 = 0)"
  by (rule u8_mod_4)

lemma fire_after_4: "((c + 1 :: u8) mod 4 = 0) = (unat c mod 4 = 3)"
proof -
  have "((c + 1) mod 4 = 0) = (unat (c + 1) mod 4 = 0)" by (rule u8_mod_4)
  also have "\<dots> = ((unat c + 1) mod 4 = 0)" unfolding u8_inc_mod_4 ..
  also have "\<dots> = (unat c mod 4 = 3)" by presburger
  finally show ?thesis .
qed

lemma fire_after_8: "((c + 1 :: u8) mod 8 = 0) = (unat c mod 8 = 7)"
proof -
  have "((c + 1) mod 8 = 0) = (unat (c + 1) mod 8 = 0)" by (rule u8_mod_8)
  also have "\<dots> = ((unat c + 1) mod 8 = 0)" unfolding u8_inc_mod_8 ..
  also have "\<dots> = (unat c mod 8 = 7)" by presburger
  finally show ?thesis .
qed

lemma next_before_4:
  "unat ((if (c :: u8) mod 4 = 0 then 0 else c) + 1) mod 4 = (unat c mod 4 + 1) mod 4"
proof (cases "c mod 4 = 0")
  case True
  then have "unat c mod 4 = 0" unfolding fire_before_4 .
  with True show ?thesis by simp
next
  case False
  then show ?thesis by (simp only: if_False inc_phase_4)
qed

lemma next_after_4:
  "unat (if (c + 1 :: u8) mod 4 = 0 then 0 else c + 1) mod 4 = (unat c mod 4 + 1) mod 4"
proof (cases "(c + 1) mod 4 = 0")
  case True
  then have "unat c mod 4 = 3" unfolding fire_after_4 .
  with True show ?thesis by simp
next
  case False
  then show ?thesis by (simp only: if_False inc_phase_4)
qed

lemma next_after_8:
  "unat (if (c + 1 :: u8) mod 8 = 0 then 0 else c + 1) mod 8 = (unat c mod 8 + 1) mod 8"
proof (cases "(c + 1) mod 8 = 0")
  case True
  then have "unat c mod 8 = 7" unfolding fire_after_8 .
  with True show ?thesis by simp
next
  case False
  then show ?thesis by (simp only: if_False inc_phase_8)
qed

lemma cadence_4:
  "((c :: u8) mod 4 = 0) = (phase 4 c = target 4)"
  "phase 4 ((if c mod 4 = 0 then 0 else c) + 1) = (phase 4 c + 1) mod period 4"
  unfolding phase_def period_simps target_simps
  by (rule fire_before_4, rule next_before_4)

lemma cadence_5:
  "((c + 1 :: u8) mod 4 = 0) = (phase 5 c = target 5)"
  "phase 5 (if (c + 1) mod 4 = 0 then 0 else c + 1) = (phase 5 c + 1) mod period 5"
  unfolding phase_def period_simps target_simps
  by (rule fire_after_4, rule next_after_4)

lemma cadence_7:
  "((c + 1 :: u8) mod 4 = 0) = (phase 7 c = target 7)"
  "phase 7 (if (c + 1) mod 4 = 0 then 0 else c + 1) = (phase 7 c + 1) mod period 7"
  unfolding phase_def period_simps target_simps
  by (rule fire_after_4, rule next_after_4)

lemma cadence_6:
  "((c + 1 :: u8) mod 8 = 0) = (phase 6 c = target 6)"
  "phase 6 (if (c + 1) mod 8 = 0 then 0 else c + 1) = (phase 6 c + 1) mod period 6"
  unfolding phase_def period_simps target_simps
  by (rule fire_after_8, rule next_after_8)

lemma evaluation_phase:
  assumes "fst (getStatus P s) = m" and "m = 4 \<or> m = 5 \<or> m = 6 \<or> m = 7"
  shows "started m s (snd (getStatus P s)) = (phase m (watchdogCount s) = target m)
    \<and> phase m (watchdogCount (snd (getStatus P s))) = (phase m (watchdogCount s) + 1) mod period m"
proof -
  let ?c = "watchdogCount s"
  consider (m4) "m = 4" | (m5) "m = 5" | (m6) "m = 6" | (m7) "m = 7"
    using assms(2) by blast
  then show ?thesis
  proof cases
    case m4
    with assms(1) have m: "fst (getStatus P s) = 4" by simp
    from getStatus_started [of P s]
    have f: "started 4 s (snd (getStatus P s)) = (?c mod 4 = 0)"
      unfolding m by simp
    have w: "watchdogCount (snd (getStatus P s)) = (if ?c mod 4 = 0 then 0 else ?c) + 1"
      unfolding getStatus_watchdogCount m by simp
    show ?thesis unfolding m4 f w by (intro conjI cadence_4)
  next
    case m5
    with assms(1) have m: "fst (getStatus P s) = 5" by simp
    from getStatus_started [of P s]
    have f: "started 5 s (snd (getStatus P s)) = ((?c + 1) mod 4 = 0)"
      unfolding m by simp
    have w: "watchdogCount (snd (getStatus P s)) = (if (?c + 1) mod 4 = 0 then 0 else ?c + 1)"
      unfolding getStatus_watchdogCount m by simp
    show ?thesis unfolding m5 f w by (intro conjI cadence_5)
  next
    case m6
    with assms(1) have m: "fst (getStatus P s) = 6" by simp
    from getStatus_started [of P s]
    have f: "started 6 s (snd (getStatus P s)) = ((?c + 1) mod 8 = 0)"
      unfolding m by simp
    have w: "watchdogCount (snd (getStatus P s)) = (if (?c + 1) mod 8 = 0 then 0 else ?c + 1)"
      unfolding getStatus_watchdogCount m by simp
    show ?thesis unfolding m6 f w by (intro conjI cadence_6)
  next
    case m7
    with assms(1) have m: "fst (getStatus P s) = 7" by simp
    from getStatus_started [of P s]
    have f: "started 7 s (snd (getStatus P s)) = ((?c + 1) mod 4 = 0)"
      unfolding m by simp
    have w: "watchdogCount (snd (getStatus P s)) = (if (?c + 1) mod 4 = 0 then 0 else ?c + 1)"
      unfolding getStatus_watchdogCount m by simp
    show ?thesis unfolding m7 f w by (intro conjI cadence_7)
  qed
qed


lemma cadence_frame_setMode:
  "watchdogCount (setMode s) = watchdogCount s"
  "adc_starts (setMode s) = adc_starts s"
  by (simp_all add: setMode_def Let_def)

lemma main_body_watchdogCount:
  "watchdogCount (main_body P s) =
     (if requestStatus s = 1 then watchdogCount (snd (getStatus P s)) else watchdogCount s)"
  by (simp add: main_body_def Let_def split_beta cadence_frame_setMode)

lemma step_watchdogCount:
  assumes "step e s = Some s'"
  shows "watchdogCount s' =
     (case evaluation e s of
        [] \<Rightarrow> watchdogCount s
      | x # xs \<Rightarrow>
          (case e of MAIN P \<Rightarrow> watchdogCount (snd (getStatus P (sleep_disable s)))
           | _ \<Rightarrow> watchdogCount s))"
proof (cases e)
  case WDT
  with assms show ?thesis by (auto simp add: WDT_vect_def sleep_disable_def)
next
  case (ADC l h)
  with assms show ?thesis by (auto simp add: ADC_vect_def Let_def split: if_splits)
next
  case TIM0_OVF
  with assms show ?thesis by (auto simp add: TIM0_OVF_vect_def sleep_disable_def Let_def)
next
  case TIM0_COMPA
  with assms show ?thesis by (auto simp add: TIM0_COMPA_vect_def sleep_disable_def Let_def)
next
  case (MAIN P)
  with assms have "s' = sleep_enable (main_body P (sleep_disable s))" by simp
  then have "watchdogCount s' = watchdogCount (main_body P (sleep_disable s))"
    by (simp add: sleep_enable_def)
  with MAIN show ?thesis
    by (simp add: main_body_watchdogCount) (simp add: sleep_disable_def)
qed

lemma run_ticks:
  assumes "\<forall>x\<in>set (evaluations evs s). mode_returned x = m \<or> mode_returned x = m'"
    and "m = 4 \<or> m = 5 \<or> m = 6 \<or> m = 7" and "m' = 4 \<or> m' = 5 \<or> m' = 6 \<or> m' = 7"
    and "period m' = period m" and "target m' = target m"
  shows "map acq_started (evaluations evs s) =
     ticks (period m) (target m) (phase m (watchdogCount s)) (length (evaluations evs s))"
  using assms(1)
proof (induction evs arbitrary: s)
  case Nil
  then show ?case by simp
next
  case (Cons e es)
  show ?case
  proof (cases "step e s")
    case None
    then show ?thesis by simp
  next
    case (Some s')
    with Cons.prems
    have all: "\<forall>x\<in>set (evaluations es s'). mode_returned x = m \<or> mode_returned x = m'"
      and here: "\<forall>x\<in>set (evaluation e s). mode_returned x = m \<or> mode_returned x = m'"
      by simp_all
    note IH = Cons.IH [OF all]
    note w = step_watchdogCount [OF Some]
    show ?thesis
    proof (cases "evaluation e s")
      case Nil
      with w have "watchdogCount s' = watchdogCount s" by simp
      with IH Some Nil show ?thesis by simp
    next
      case (Cons x xs)
      then obtain P where e: "e = MAIN P" and req: "requestStatus s = 1"
        by (cases e) (auto split: if_splits)
      let ?sd = "sleep_disable s"
      from Cons e req have x: "x = observe ?sd (getStatus P ?sd)" and xs: "xs = []"
        by simp_all
      from here Cons x obtain k where k: "fst (getStatus P ?sd) = k"
        and kk: "k = m \<or> k = m'" by (simp add: observe_def)
      from kk assms(2,3) have modes: "k = 4 \<or> k = 5 \<or> k = 6 \<or> k = 7" by blast
      from kk assms(4,5) have same: "period k = period m" "target k = target m"
        "phase k = phase m"
        by (auto simp add: phase_def)
      from w Cons e have w': "watchdogCount s' = watchdogCount (snd (getStatus P ?sd))"
        by simp
      have c: "watchdogCount ?sd = watchdogCount s"
        by (simp add: sleep_disable_def)
      from x k have st: "acq_started x = started k ?sd (snd (getStatus P ?sd))"
        by (simp add: observe_def)
      from evaluation_phase [OF k modes]
      have "acq_started x = (phase m (watchdogCount s) = target m)"
        and "phase m (watchdogCount s') = (phase m (watchdogCount s) + 1) mod period m"
        unfolding same w' c st by simp_all
      with IH Some Cons xs show ?thesis by simp
    qed
  qed
qed

lemma run_skipped:
  assumes "x \<in> set (evaluations evs s)"
    and "mode_returned x = 4 \<or> mode_returned x = 5 \<or> mode_returned x = 6
      \<or> mode_returned x = 7"
  shows "acq_skipped x = (\<not> acq_started x)"
  using assms(1)
proof (induction evs arbitrary: s)
  case Nil
  then show ?case by simp
next
  case (Cons e es)
  show ?case
  proof (cases "step e s")
    case None
    with Cons.prems show ?thesis by simp
  next
    case (Some s')
    with Cons.prems consider (here) "x \<in> set (evaluation e s)"
      | (later) "x \<in> set (evaluations es s')"
      by auto
    then show ?thesis
    proof cases
      case here
      then obtain P where x: "x = observe (sleep_disable s) (getStatus P (sleep_disable s))"
        by (cases e) (auto split: if_splits)
      with assms(2) getStatus_skipped_or_started [of P "sleep_disable s"] show ?thesis
        by (simp add: observe_def)
    next
      case later
      then show ?thesis by (rule Cons.IH)
    qed
  qed
qed

lemma four_cases: "(r :: nat) < 4 \<Longrightarrow> r = 0 \<or> r = 1 \<or> r = 2 \<or> r = 3"
  by linarith

lemma eight_cases:
  "(r :: nat) < 8 \<Longrightarrow> r = 0 \<or> r = 1 \<or> r = 2 \<or> r = 3 \<or> r = 4 \<or> r = 5 \<or> r = 6 \<or> r = 7"
  by linarith

lemma one_of_four:
  assumes "r < 4" and "t < 4"
  shows "length (filter id (ticks 4 t r (Suc (Suc (Suc (Suc 0)))))) = 1"
  using four_cases [OF assms(1)] four_cases [OF assms(2)]
  by (elim disjE) simp_all

lemma one_of_eight:
  assumes "r < 8"
  shows "length (filter id (ticks 8 7 r (Suc (Suc (Suc (Suc (Suc (Suc (Suc (Suc 0)))))))))) = 1"
  using eight_cases [OF assms]
  by (elim disjE) simp_all


lemma take_ticks: "n \<le> k \<Longrightarrow> take n (ticks p t r k) = ticks p t r n"
proof (induction n arbitrary: r k)
  case 0
  then show ?case by simp
next
  case (Suc n)
  then obtain k' where "k = Suc k'" by (cases k) simp_all
  with Suc show ?case by simp
qed

lemma drop_ticks:
  assumes "0 < p"
  shows "r < p \<Longrightarrow> i \<le> k \<Longrightarrow> \<exists>r'. r' < p \<and> drop i (ticks p t r k) = ticks p t r' (k - i)"
proof (induction i arbitrary: r k)
  case 0
  then show ?case by auto
next
  case (Suc i)
  then obtain k' where k: "k = Suc k'" by (cases k) simp_all
  from assms have "(r + 1) mod p < p" by simp
  from Suc.IH [OF this, of k'] Suc.prems k show ?case by simp
qed

lemma window_4:
  assumes "r < 4" and "t < 4" and "i + 4 \<le> k"
  shows "length (filter id (take 4 (drop i (ticks 4 t r k)))) = 1"
proof -
  from assms(3) have "i \<le> k" by simp
  from drop_ticks [of 4 r i k t, OF _ assms(1) this] obtain r' where r': "r' < 4"
    and d: "drop i (ticks 4 t r k) = ticks 4 t r' (k - i)" by auto
  from assms(3) have "take 4 (ticks 4 t r' (k - i)) = ticks 4 t r' 4"
    by (intro take_ticks) simp
  moreover have "(4 :: nat) = Suc (Suc (Suc (Suc 0)))" by simp
  ultimately have "take 4 (drop i (ticks 4 t r k)) = ticks 4 t r' (Suc (Suc (Suc (Suc 0))))"
    using d by metis
  with one_of_four [OF r' assms(2)] show ?thesis by (simp only:)
qed

lemma window_8:
  assumes "r < 8" and "i + 8 \<le> k"
  shows "length (filter id (take 8 (drop i (ticks 8 7 r k)))) = 1"
proof -
  from assms(2) have "i \<le> k" by simp
  from drop_ticks [of 8 r i k 7, OF _ assms(1) this] obtain r' where r': "r' < 8"
    and d: "drop i (ticks 8 7 r k) = ticks 8 7 r' (k - i)" by auto
  from assms(2) have "take 8 (ticks 8 7 r' (k - i)) = ticks 8 7 r' 8"
    by (intro take_ticks) simp
  moreover have "(8 :: nat) = Suc (Suc (Suc (Suc (Suc (Suc (Suc (Suc 0)))))))" by simp
  ultimately have "take 8 (drop i (ticks 8 7 r k)) =
      ticks 8 7 r' (Suc (Suc (Suc (Suc (Suc (Suc (Suc (Suc 0))))))))"
    using d by metis
  with one_of_eight [OF r'] show ?thesis by (simp only:)
qed

lemma window_of_run:
  assumes "(m = 4 \<or> m = 5 \<or> m = 7) \<and> n = 4 \<or> m = 6 \<and> n = 8"
    and "i + n \<le> k"
  shows "length (filter id (take n (drop i (ticks (period m) (target m) (phase m c) k)))) = 1"
proof -
  from assms(1) consider (four) "period m = 4" "target m < 4" "n = 4"
    | (eight) "period m = 8" "target m = 7" "n = 8"
    by (auto simp add: period_def target_def)
  then show ?thesis
  proof cases
    case four
    then have "phase m c < 4" by (simp add: phase_def)
    from window_4 [OF this four(2), of i k] assms(2) four(3) show ?thesis
      unfolding four(1) by simp
  next
    case eight
    then have "phase m c < 8" by (simp add: phase_def)
    from window_8 [OF this, of i k] assms(2) eight(3) show ?thesis
      unfolding eight(1,2) by simp
  qed
qed

lemma count_started:
  "length (filter acq_started xs) = length (filter id (map acq_started xs))"
  by (induction xs) simp_all

lemma count_skipped:
  assumes "\<forall>x\<in>set xs. acq_skipped x = (\<not> acq_started x)"
  shows "length (filter acq_skipped xs) = length xs - length (filter acq_started xs)"
proof -
  from assms have "filter acq_skipped xs = filter (\<lambda>x. \<not> acq_started x) xs"
    by (intro filter_cong) simp_all
  moreover have "length (filter acq_started xs) + length (filter (\<lambda>x. \<not> acq_started x) xs)
      = length xs"
    by (rule sum_length_filter_compl)
  ultimately show ?thesis by simp
qed

text \<open>
  Claim C5, amended. Take any run and any start state, and let every evaluation of the
  run return mode 4, or let every one return mode 5 or 7: then among any 4 consecutive
  evaluations exactly one starts an acquisition (it resets the counter, selects idle
  sleep, enables the converter and starts a conversion) and the other 3 only increment
  the counter. Let every one return mode 6: then among any 8 consecutive evaluations
  exactly one starts an acquisition and the other 7 only increment the counter.
  Interrupts and idle passes of the loop may come between the evaluations.
\<close>

theorem C5_sampling_cadence:
  assumes "\<forall>x\<in>set (evaluations evs s). mode_returned x \<in> M"
    and "(M = {4} \<or> M = {5, 7}) \<and> n = 4 \<or> M = {6} \<and> n = 8"
    and "i + n \<le> length (evaluations evs s)"
  shows "length (filter acq_started (take n (drop i (evaluations evs s)))) = 1
    \<and> length (filter acq_skipped (take n (drop i (evaluations evs s)))) = n - 1"
proof -
  let ?win = "take n (drop i (evaluations evs s))"
  from assms(2) obtain m m' where M: "M = {m, m'}"
    and m: "(m = 4 \<or> m = 5 \<or> m = 7) \<and> n = 4 \<or> m = 6 \<and> n = 8"
    and same: "period m' = period m" "target m' = target m"
    and modes: "m = 4 \<or> m = 5 \<or> m = 6 \<or> m = 7" "m' = 4 \<or> m' = 5 \<or> m' = 6 \<or> m' = 7"
  proof (elim disjE conjE)
    assume "M = {4}" "n = 4"
    then show ?thesis by (intro that [of 4 4]) simp_all
  next
    assume "M = {5, 7}" "n = 4"
    then show ?thesis by (intro that [of 5 7]) (simp_all add: period_simps target_simps)
  next
    assume "M = {6}" "n = 8"
    then show ?thesis by (intro that [of 6 6]) simp_all
  qed
  from assms(1) M
  have all: "\<forall>x\<in>set (evaluations evs s). mode_returned x = m \<or> mode_returned x = m'"
    by simp
  have "length (filter acq_started ?win) =
      length (filter id (take n (drop i (map acq_started (evaluations evs s)))))"
    by (simp only: count_started take_map drop_map)
  also have "\<dots> = length (filter id (take n (drop i
      (ticks (period m) (target m) (phase m (watchdogCount s)) (length (evaluations evs s))))))"
    by (simp only: run_ticks [OF all modes same])
  also have "\<dots> = 1"
    using m assms(3) by (rule window_of_run)
  finally have one: "length (filter acq_started ?win) = 1" .
  have "\<forall>x\<in>set ?win. acq_skipped x = (\<not> acq_started x)"
  proof
    fix x
    assume "x \<in> set ?win"
    then have x: "x \<in> set (evaluations evs s)"
      by (meson in_set_dropD in_set_takeD)
    with all modes have "mode_returned x = 4 \<or> mode_returned x = 5 \<or> mode_returned x = 6
      \<or> mode_returned x = 7" by blast
    with x show "acq_skipped x = (\<not> acq_started x)" by (rule run_skipped)
  qed
  then have "length (filter acq_skipped ?win) = length ?win - length (filter acq_started ?win)"
    by (rule count_skipped)
  moreover from assms(3) have "length ?win = n" by simp
  ultimately have "length (filter acq_skipped ?win) = n - 1"
    using one by simp
  with one show ?thesis by simp
qed

lemmas eval_defs = main_body_def getStatus_def setMode_def release_OUT_ENA_def
  start_adc_cycles_def sleep_enable_def sleep_disable_def WDT_vect_def Let_def bv_def
  observe_def started_def skipped_def bit_defs pin_defs const_defs

theorem C5_sampling_cadence_witness:
  "evaluations [MAIN (\<lambda>_. 2), WDT, MAIN (\<lambda>_. 2), WDT, MAIN (\<lambda>_. 2), WDT,
       MAIN (\<lambda>_. 2), WDT, MAIN (\<lambda>_. 2)] power_on
     = [\<lparr>mode_returned = 4, acq_started = True, acq_skipped = False\<rparr>,
        \<lparr>mode_returned = 4, acq_started = False, acq_skipped = True\<rparr>,
        \<lparr>mode_returned = 4, acq_started = False, acq_skipped = True\<rparr>,
        \<lparr>mode_returned = 4, acq_started = False, acq_skipped = True\<rparr>,
        \<lparr>mode_returned = 4, acq_started = True, acq_skipped = False\<rparr>]
   \<and> length (filter acq_started (take 4 (drop 1
        (evaluations [MAIN (\<lambda>_. 2), WDT, MAIN (\<lambda>_. 2), WDT, MAIN (\<lambda>_. 2), WDT,
           MAIN (\<lambda>_. 2), WDT, MAIN (\<lambda>_. 2)] power_on)))) = 1
   \<and> length (filter acq_skipped (take 4 (drop 1
        (evaluations [MAIN (\<lambda>_. 2), WDT, MAIN (\<lambda>_. 2), WDT, MAIN (\<lambda>_. 2), WDT,
           MAIN (\<lambda>_. 2), WDT, MAIN (\<lambda>_. 2)] power_on)))) = 4 - 1
   \<and> map mode_returned
        (evaluations [MAIN (\<lambda>_. 2), WDT, MAIN (\<lambda>_. 2), WDT, MAIN (\<lambda>_. 2), WDT,
           MAIN (\<lambda>_. 2), WDT, MAIN (\<lambda>_. 2), WDT, MAIN (\<lambda>_. 2), WDT, MAIN (\<lambda>_. 2), WDT,
           MAIN (\<lambda>_. 2), WDT, MAIN (\<lambda>_. 2)] (power_on\<lparr>voltage := 3250\<rparr>))
      = [6, 6, 6, 6, 6, 6, 6, 6, 6]
   \<and> length (filter acq_started (take 8 (drop 1
        (evaluations [MAIN (\<lambda>_. 2), WDT, MAIN (\<lambda>_. 2), WDT, MAIN (\<lambda>_. 2), WDT,
           MAIN (\<lambda>_. 2), WDT, MAIN (\<lambda>_. 2), WDT, MAIN (\<lambda>_. 2), WDT, MAIN (\<lambda>_. 2), WDT,
           MAIN (\<lambda>_. 2), WDT, MAIN (\<lambda>_. 2)] (power_on\<lparr>voltage := 3250\<rparr>))))) = 1
   \<and> length (filter acq_skipped (take 8 (drop 1
        (evaluations [MAIN (\<lambda>_. 2), WDT, MAIN (\<lambda>_. 2), WDT, MAIN (\<lambda>_. 2), WDT,
           MAIN (\<lambda>_. 2), WDT, MAIN (\<lambda>_. 2), WDT, MAIN (\<lambda>_. 2), WDT, MAIN (\<lambda>_. 2), WDT,
           MAIN (\<lambda>_. 2), WDT, MAIN (\<lambda>_. 2)] (power_on\<lparr>voltage := 3250\<rparr>))))) = 8 - 1"
proof -
  let ?P = "\<lambda>_ :: mcu. 2 :: u8"
  let ?run4 = "[MAIN ?P, WDT, MAIN ?P, WDT, MAIN ?P, WDT, MAIN ?P, WDT, MAIN ?P]"
  let ?run6 = "[MAIN ?P, WDT, MAIN ?P, WDT, MAIN ?P, WDT, MAIN ?P, WDT, MAIN ?P, WDT,
      MAIN ?P, WDT, MAIN ?P, WDT, MAIN ?P, WDT, MAIN ?P]"
  have e4: "evaluations ?run4 power_on
      = [\<lparr>mode_returned = 4, acq_started = True, acq_skipped = False\<rparr>,
        \<lparr>mode_returned = 4, acq_started = False, acq_skipped = True\<rparr>,
        \<lparr>mode_returned = 4, acq_started = False, acq_skipped = True\<rparr>,
        \<lparr>mode_returned = 4, acq_started = False, acq_skipped = True\<rparr>,
        \<lparr>mode_returned = 4, acq_started = True, acq_skipped = False\<rparr>]"
    by (simp add: start_defs eval_defs)
  have e6: "evaluations ?run6 (power_on\<lparr>voltage := 3250\<rparr>)
      = [\<lparr>mode_returned = 6, acq_started = False, acq_skipped = True\<rparr>,
        \<lparr>mode_returned = 6, acq_started = False, acq_skipped = True\<rparr>,
        \<lparr>mode_returned = 6, acq_started = False, acq_skipped = True\<rparr>,
        \<lparr>mode_returned = 6, acq_started = False, acq_skipped = True\<rparr>,
        \<lparr>mode_returned = 6, acq_started = False, acq_skipped = True\<rparr>,
        \<lparr>mode_returned = 6, acq_started = False, acq_skipped = True\<rparr>,
        \<lparr>mode_returned = 6, acq_started = False, acq_skipped = True\<rparr>,
        \<lparr>mode_returned = 6, acq_started = True, acq_skipped = False\<rparr>,
        \<lparr>mode_returned = 6, acq_started = False, acq_skipped = True\<rparr>]"
    by (simp add: start_defs eval_defs)
  have a4: "\<forall>x\<in>set (evaluations ?run4 power_on). mode_returned x \<in> {4}"
    and l4: "1 + 4 \<le> length (evaluations ?run4 power_on)"
    unfolding e4 by simp_all
  have a6: "\<forall>x\<in>set (evaluations ?run6 (power_on\<lparr>voltage := 3250\<rparr>)). mode_returned x \<in> {6}"
    and l6: "1 + 8 \<le> length (evaluations ?run6 (power_on\<lparr>voltage := 3250\<rparr>))"
    unfolding e6 by simp_all
  have m6: "map mode_returned (evaluations ?run6 (power_on\<lparr>voltage := 3250\<rparr>))
      = [6, 6, 6, 6, 6, 6, 6, 6, 6]"
    unfolding e6 by simp
  have c4: "({4 :: u8} = {4} \<or> {4 :: u8} = {5, 7}) \<and> (4 :: nat) = 4
      \<or> {4 :: u8} = {6} \<and> (4 :: nat) = 8"
    and c6: "({6 :: u8} = {4} \<or> {6 :: u8} = {5, 7}) \<and> (8 :: nat) = 4
      \<or> {6 :: u8} = {6} \<and> (8 :: nat) = 8"
    by simp_all
  note C5_sampling_cadence [OF a4 c4 l4] C5_sampling_cadence [OF a6 c6 l6]
  with e4 m6 show ?thesis by blast
qed

text \<open>
  Claim C5 as stated fails where a run changes between mode 4 and mode 5: mode 4 tests
  the counter before incrementing it, mode 5 after. From power-on with the switch on, the
  first evaluation (mode 4, counter 0) starts an acquisition, which publishes 3403 mV; the
  next three evaluations are in mode 5 and the third of them (counter 4) starts another.
  These four consecutive evaluations, all in mode 4 or 5, hold two requests.
\<close>

theorem C5_counterexample:
  "evaluations mixed_run power_on
     = [\<lparr>mode_returned = 4, acq_started = True, acq_skipped = False\<rparr>,
        \<lparr>mode_returned = 5, acq_started = False, acq_skipped = True\<rparr>,
        \<lparr>mode_returned = 5, acq_started = False, acq_skipped = True\<rparr>,
        \<lparr>mode_returned = 5, acq_started = True, acq_skipped = False\<rparr>]
   \<and> length (filter acq_started (take 4 (drop 0 (evaluations mixed_run power_on)))) = 2"
proof -
  have run: "evaluations mixed_run power_on
     = [\<lparr>mode_returned = 4, acq_started = True, acq_skipped = False\<rparr>,
        \<lparr>mode_returned = 5, acq_started = False, acq_skipped = True\<rparr>,
        \<lparr>mode_returned = 5, acq_started = False, acq_skipped = True\<rparr>,
        \<lparr>mode_returned = 5, acq_started = True, acq_skipped = False\<rparr>]"
    by (simp add: mixed_run_def start_defs eval_defs ADC_vect_def raw_code_def
        PINB_of_def switch_on_def)
  then show ?thesis by simp
qed

end
